theory Spec2Isabelle
  imports Complex_Main "HOL-Library.Multiset" "HOL-Library.Log_Nat"
begin

section \<open>BDE unit-test support for waf: \<^verbatim>\<open>bdeunittest.py\<close>\<close>

text \<open>
  The development embeds the functions of \<^verbatim>\<open>lib/python/bdebuild/waf/bdeunittest.py\<close>:
  the decision whether a test task runs (\<^verbatim>\<open>utest.runnable_status\<close>), the command line
  of the test runner (\<^verbatim>\<open>utest.get_testcmd\<close>), the environment of the test process and the
  collection of results (\<^verbatim>\<open>utest.run\<close>), the summary (\<^verbatim>\<open>print_test_summary\<close>), the coverage
  pipeline (\<^verbatim>\<open>generate_coverage_report\<close>) and the post-build hook (\<^verbatim>\<open>post_build_fun\<close>).
\<close>

subsection \<open>Python string formatting\<close>

text \<open>The decimal digits of a natural number, most significant first.\<close>

definition digit_char :: "nat \<Rightarrow> char" where
  "digit_char d = ''0123456789'' ! d"

fun str_nat :: "nat \<Rightarrow> string" where
  "str_nat n = (if n < 10 then [digit_char n] else str_nat (n div 10) @ [digit_char (n mod 10)])"

declare str_nat.simps [simp del]

text \<open>\<^verbatim>\<open>'%d' % i\<close> and \<^verbatim>\<open>'%s' % i\<close> for a Python integer \<open>i\<close>.\<close>

definition str_int :: "int \<Rightarrow> string" where
  "str_int i = (if i < 0 then CHR ''-'' # str_nat (nat (- i)) else str_nat (nat i))"

text \<open>\<^verbatim>\<open>'%02d' % i\<close>: the sign counts for the width, zeros fill up to two characters.\<close>

definition fmt_02d :: "int \<Rightarrow> string" where
  "fmt_02d i =
     (if i < 0 then CHR ''-'' # str_nat (nat (- i))
      else replicate (2 - length (str_nat (nat i))) CHR ''0'' @ str_nat (nat i))"

text \<open>
  A number given to \<^verbatim>\<open>%d\<close> is converted as \<^verbatim>\<open>int(x)\<close> does: the fractional part is cut
  off, towards zero.
\<close>

definition py_trunc :: "rat \<Rightarrow> int" where
  "py_trunc x = (if x < 0 then - \<lfloor>- x\<rfloor> else \<lfloor>x\<rfloor>)"

subsection \<open>Python floats\<close>

text \<open>
  A Python float is an IEEE 754 double. A finite double is a rational number, a whole
  multiple \<open>k * 2 ^ u\<close> of a power of two with \<open>\<bar>k\<bar> < 2 ^ 53\<close> and \<open>u \<ge> - 1074\<close>; the model
  takes it as that rational number (the sign of a zero, which neither \<^verbatim>\<open>==\<close> nor
  \<^verbatim>\<open>int()\<close> sees, is not kept). An arithmetic operation on floats gives the exact result
  rounded to the nearest double, to the one with the even \<open>k\<close> when two are equally near.
\<close>

text \<open>The nearest integer, the even one of the two when \<open>r\<close> lies half-way.\<close>

definition round_half_even :: "rat \<Rightarrow> int" where
  "round_half_even r =
     (let f = \<lfloor>r\<rfloor>; d = r - of_int f
      in if d < 1 / 2 then f else if 1 / 2 < d then f + 1 else if even f then f else f + 1)"

text \<open>For \<open>x > 0\<close>, the exponent \<open>e\<close> with \<open>2 ^ e \<le> x < 2 ^ (e + 1)\<close>.\<close>

definition binary_exponent :: "rat \<Rightarrow> int" where
  "binary_exponent x = (if 1 \<le> x then bitlen \<lfloor>x\<rfloor> - 1 else - bitlen (\<lceil>1 / x\<rceil> - 1))"

text \<open>
  Rounding to a double: doubles with the exponent \<open>e\<close> are 52 binary places finer than
  \<open>2 ^ e\<close>, and none is finer than \<open>2 ^ - 1074\<close>. A result of \<open>2 ^ 1024\<close> or more would be
  an infinity in Python; no operation of \<^verbatim>\<open>get_time\<close> on a finite double gives one, and the
  model does not have it.
\<close>

definition round_double :: "rat \<Rightarrow> rat" where
  "round_double x =
     (if x = 0 then 0
      else let u = max (binary_exponent \<bar>x\<bar> - 52) (- 1074)
           in of_int (round_half_even (x / 2 powi u)) * 2 powi u)"

text \<open>\<^verbatim>\<open>x + y\<close>, \<^verbatim>\<open>x - y\<close>, \<^verbatim>\<open>x * y\<close> and \<^verbatim>\<open>x / y\<close> on floats.\<close>

definition float_add :: "rat \<Rightarrow> rat \<Rightarrow> rat" where
  "float_add x y = round_double (x + y)"

definition float_sub :: "rat \<Rightarrow> rat \<Rightarrow> rat" where
  "float_sub x y = round_double (x - y)"

definition float_mul :: "rat \<Rightarrow> rat \<Rightarrow> rat" where
  "float_mul x y = round_double (x * y)"

definition float_div :: "rat \<Rightarrow> rat \<Rightarrow> rat" where
  "float_div x y = round_double (x / y)"

text \<open>C's \<^verbatim>\<open>fmod(x, y)\<close>, which is exact: the remainder with the sign of \<open>x\<close>.\<close>

definition float_fmod :: "rat \<Rightarrow> rat \<Rightarrow> rat" where
  "float_fmod x y = x - y * of_int (py_trunc (x / y))"

text \<open>
  \<^verbatim>\<open>divmod(vx, wx)\<close> on floats for \<open>wx \<noteq> 0\<close>, as CPython's \<^verbatim>\<open>float_divmod\<close> computes it
  (this module divides by 60 only): the remainder of \<^verbatim>\<open>fmod\<close>, moved to the sign of \<open>wx\<close>,
  and the quotient \<^verbatim>\<open>(vx - mod) / wx\<close> snapped to the nearest integral value.
\<close>

definition float_divmod :: "rat \<Rightarrow> rat \<Rightarrow> rat \<times> rat" where
  "float_divmod vx wx =
     (let mod0 = float_fmod vx wx;
          div0 = float_div (float_sub vx mod0) wx;
          adjust = (mod0 \<noteq> 0 \<and> (wx < 0) \<noteq> (mod0 < 0));
          mod1 = (if adjust then float_add mod0 wx else mod0);
          div1 = (if adjust then float_sub div0 1 else div0);
          floordiv =
            (if div1 \<noteq> 0 then
               (if 1 / 2 < float_sub div1 (of_int \<lfloor>div1\<rfloor>) then float_add (of_int \<lfloor>div1\<rfloor>) 1
                else of_int \<lfloor>div1\<rfloor>)
             else 0)
      in (floordiv, mod1))"

text \<open>\<^verbatim>\<open>sep.join(xs)\<close>.\<close>

fun join_str :: "string \<Rightarrow> string list \<Rightarrow> string" where
  "join_str sep [] = []"
| "join_str sep [x] = x"
| "join_str sep (x # y # ys) = x @ sep @ join_str sep (y # ys)"

subsection \<open>Data of the build\<close>

text \<open>
  A waf node, as far as this module reads it: \<^verbatim>\<open>n.abspath()\<close> and \<^verbatim>\<open>n.parent.abspath()\<close>.
\<close>

record node =
  abspath :: string
  parent_abspath :: string

text \<open>The command-line options declared in \<^verbatim>\<open>options(ctx)\<close>.\<close>

record options =
  test :: string
  test_v :: int
  test_j :: int
  show_test_out :: bool
  test_timeout :: int
  test_junit :: bool
  coverage_out :: "string option"
  valgrind :: bool
  valgrind_tool :: string

text \<open>
  What the module reads from the interpreter, the operating system and waf, none of it
  defined in this module: \<^verbatim>\<open>sys.executable\<close>, the module constant \<^verbatim>\<open>test_runner_path\<close>,
  \<^verbatim>\<open>Utils.is_win32\<close>, \<^verbatim>\<open>Utils.unversioned_sys_platform()\<close>, \<^verbatim>\<open>os.pathsep\<close>,
  \<^verbatim>\<open>os.environ\<close>, \<^verbatim>\<open>os.path.join\<close> with two arguments, the order in which Python
  iterates over a set of strings, \<^verbatim>\<open>str\<close> of a command and of the list of commands, the
  colour codes \<^verbatim>\<open>Logs.colors.YELLOW\<close> and \<^verbatim>\<open>Logs.colors.NORMAL\<close>, and the coverage
  tools: \<open>proc ext launched cmd\<close> is the exit code and the output of the process started
  with \<open>cmd\<close> after the processes \<open>launched\<close>.
\<close>

record externals =
  sys_executable :: string
  test_runner_path :: string
  is_win32 :: bool
  unversioned_sys_platform :: string
  pathsep :: string
  environ :: "string \<rightharpoonup> string"
  path_join :: "string \<Rightarrow> string \<Rightarrow> string"
  set_iter :: "string set \<Rightarrow> string list"
  str_cmd :: "string list \<Rightarrow> string"
  str_cmd_descs :: "(string list \<times> string) list \<Rightarrow> string"
  colors_YELLOW :: string
  colors_NORMAL :: string
  proc :: "string list list \<Rightarrow> string list \<Rightarrow> int \<times> string list"

text \<open>
  The values of \<^verbatim>\<open>Task.runnable_status\<close> in waf (\<^verbatim>\<open>waflib.Task\<close> is not part of this
  module): \<^verbatim>\<open>ASK_LATER\<close>, \<^verbatim>\<open>SKIP_ME\<close>, \<^verbatim>\<open>RUN_ME\<close> and \<^verbatim>\<open>CANCEL_ME\<close>.
\<close>

datatype task_status = ASK_LATER | SKIP_ME | RUN_ME | CANCEL_ME

subsection \<open>\<^verbatim>\<open>utest.runnable_status\<close>\<close>

text \<open>
  \<open>super_status\<close> is the result of \<^verbatim>\<open>super(utest, self).runnable_status()\<close>, the staleness
  check of the build graph; the method consults it only when the tests are to be run.
\<close>

definition runnable_status :: "options \<Rightarrow> task_status \<Rightarrow> task_status" where
  "runnable_status opts super_status =
     (let run_test = (test opts = ''run'') in
      if \<not> run_test then SKIP_ME
      else
        let ret = super_status in
        if ret = SKIP_ME \<and> run_test then RUN_ME else ret)"

subsection \<open>\<^verbatim>\<open>utest.get_testcmd\<close>\<close>

definition get_testcmd :: "externals \<Rightarrow> options \<Rightarrow> node \<Rightarrow> string list" where
  "get_testcmd ext opts testdriver_node =
     (let testcmd = [sys_executable ext, test_runner_path ext,
                     ''--verbosity='' @ str_int (test_v opts),
                     ''--timeout='' @ str_int (test_timeout opts),
                     ''-j'' @ str_int (test_j opts),
                     abspath testdriver_node];
          testcmd = (if test_junit opts
                     then testcmd @ [''--junit='' @ abspath testdriver_node @ ''-junit.xml'']
                     else testcmd);
          testcmd = (if valgrind opts
                     then testcmd @ [''--valgrind'', ''--valgrind-tool='' @ valgrind_tool opts]
                     else testcmd)
      in testcmd)"

subsection \<open>The build context\<close>

text \<open>
  A link task with its output nodes, and a task generator: \<open>link_task\<close> is
  \<^verbatim>\<open>getattr(tg, 'link_task', None)\<close> and \<open>source\<close> is \<^verbatim>\<open>tg.source\<close>.
\<close>

record task =
  inputs :: "node list"
  outputs :: "node list"

record task_gen =
  link_task :: "task option"
  source :: "node list"

text \<open>
  One entry of \<^verbatim>\<open>bld.utest_results\<close>: the tuple \<^verbatim>\<open>(testdriver_node, returncode, stdout,
  elapsed, source[0])\<close>. The elapsed time is a float, the difference of two values of
  \<^verbatim>\<open>time.time()\<close>.
\<close>

type_synonym utest_result = "node \<times> int \<times> string \<times> rat \<times> node"

text \<open>
  The build context as this module reads and writes it. \<open>utest_results\<close> and
  \<open>all_test_paths\<close> are attributes that do not exist (\<open>None\<close>) until \<^verbatim>\<open>utest.run\<close> sets
  them. \<open>with_coverage\<close>, \<open>env_LCOV\<close> and \<open>env_GENHTML\<close> are \<^verbatim>\<open>ctx.env[...]\<close>,
  \<open>bldnode\<close> and \<open>path\<close> are \<^verbatim>\<open>ctx.bldnode\<close> and \<^verbatim>\<open>ctx.path\<close>, and \<open>log_timer\<close> is
  \<^verbatim>\<open>str(ctx.log_timer)\<close>.
\<close>

record build_context =
  groups :: "task_gen list list"
  utest_results :: "utest_result list option"
  all_test_paths :: "(string \<rightharpoonup> string) option"
  ctx_options :: options
  with_coverage :: bool
  env_LCOV :: "string list"
  env_GENHTML :: "string list"
  bldnode :: node
  path :: node
  log_timer :: string

text \<open>
  The exception that the statements of this module raise by themselves: an index out of
  range. An exception ends the function, and the model keeps no state then. A failure of
  the operating system (a process that cannot be started, a file that cannot be opened)
  is not modelled.
\<close>

datatype error = IndexError

text \<open>What waf's \<^verbatim>\<open>Logs\<close> is asked to print: \<^verbatim>\<open>Logs.pprint(colour, msg)\<close> and \<^verbatim>\<open>Logs.info(msg)\<close>.\<close>

datatype colour = CYAN | GREEN | YELLOW

datatype log_line = Pprint colour string | Info string

subsection \<open>\<^verbatim>\<open>utest.run\<close>: the environment of the test process\<close>

text \<open>
  The loop over \<^verbatim>\<open>bld.groups\<close> that collects in \<open>lst\<close> the directory of the first output of
  every link task, each directory once, in the order met. \<^verbatim>\<open>outputs[0]\<close> of a task without
  outputs raises \<^verbatim>\<open>IndexError\<close>.
\<close>

fun scan_group :: "task_gen list \<Rightarrow> string list \<Rightarrow> error + string list" where
  "scan_group [] lst = Inr lst"
| "scan_group (tg # g) lst =
     (case link_task tg of
        None \<Rightarrow> scan_group g lst
      | Some lt \<Rightarrow>
          (case outputs lt of
             [] \<Rightarrow> Inl IndexError
           | out0 # _ \<Rightarrow>
               let s = parent_abspath out0 in
               scan_group g (if s \<notin> set lst then lst @ [s] else lst)))"

fun scan_groups :: "task_gen list list \<Rightarrow> string list \<Rightarrow> error + string list" where
  "scan_groups [] lst = Inr lst"
| "scan_groups (g # gs) lst =
     (case scan_group g lst of Inl e \<Rightarrow> Inl e | Inr lst' \<Rightarrow> scan_groups gs lst')"

text \<open>
  The local function \<^verbatim>\<open>add_path(dct, path, var)\<close>; \<^verbatim>\<open>Utils.to_list\<close> returns a list as it
  is, and the old value is read from \<^verbatim>\<open>os.environ\<close>, \<^verbatim>\<open>''\<close> when the variable is not set.
\<close>

definition add_path ::
  "externals \<Rightarrow> (string \<rightharpoonup> string) \<Rightarrow> string list \<Rightarrow> string \<Rightarrow> (string \<rightharpoonup> string)" where
  "add_path ext dct path_list var =
     dct(var \<mapsto> join_str (pathsep ext)
                   (path_list @ [case environ ext var of None \<Rightarrow> [] | Some v \<Rightarrow> v]))"

text \<open>
  The \<^verbatim>\<open>try\<close> block of \<^verbatim>\<open>utest.run\<close>: the environment \<open>fu\<close> is taken from
  \<^verbatim>\<open>bld.all_test_paths\<close> when the attribute exists, and computed and stored there otherwise.
\<close>

definition test_paths ::
  "externals \<Rightarrow> build_context \<Rightarrow> error + (string \<rightharpoonup> string) \<times> build_context" where
  "test_paths ext bld =
     (case all_test_paths bld of
        Some fu \<Rightarrow> Inr (fu, bld)
      | None \<Rightarrow>
          (case scan_groups (groups bld) [] of
             Inl e \<Rightarrow> Inl e
           | Inr lst \<Rightarrow>
               let fu = environ ext;
                   fu = (if is_win32 ext then add_path ext fu lst ''PATH''
                         else if unversioned_sys_platform ext = ''darwin''
                         then add_path ext (add_path ext fu lst ''DYLD_LIBRARY_PATH'') lst
                                ''LD_LIBRARY_PATH''
                         else add_path ext fu lst ''LD_LIBRARY_PATH'')
               in Inr (fu, bld\<lparr>all_test_paths := Some fu\<rparr>)))"

subsection \<open>\<^verbatim>\<open>utest.run\<close>: storing the result\<close>

text \<open>The statements between \<^verbatim>\<open>testlock.acquire()\<close> and \<^verbatim>\<open>testlock.release()\<close>.\<close>

definition append_result :: "utest_result \<Rightarrow> build_context \<Rightarrow> build_context" where
  "append_result tup bld =
     (case utest_results bld of
        Some results \<Rightarrow> bld\<lparr>utest_results := Some (results @ [tup])\<rparr>
      | None \<Rightarrow> bld\<lparr>utest_results := Some [tup]\<rparr>)"

text \<open>
  \<^verbatim>\<open>utest.run\<close> for the task \<open>tsk\<close> of the generator \<open>gen\<close>. \<open>popen cmd cwd env\<close> stands for
  the test process: its return code, its decoded output and the time it took (a failure of
  \<^verbatim>\<open>stdout.decode\<close> is not modelled). The result is the tuple stored in
  \<^verbatim>\<open>generator.utest_result\<close> and the build context.
\<close>

definition run ::
  "externals \<Rightarrow> (string list \<Rightarrow> string \<Rightarrow> (string \<rightharpoonup> string) \<Rightarrow> int \<times> string \<times> rat) \<Rightarrow>
   options \<Rightarrow> task_gen \<Rightarrow> task \<Rightarrow> build_context \<Rightarrow> error + utest_result \<times> build_context" where
  "run ext popen opts gen tsk bld =
     (case inputs tsk of
        [] \<Rightarrow> Inl IndexError
      | testdriver_node # _ \<Rightarrow>
          (case test_paths ext bld of
             Inl e \<Rightarrow> Inl e
           | Inr (fu, bld1) \<Rightarrow>
               let cwd = parent_abspath testdriver_node;
                   testcmd = get_testcmd ext opts testdriver_node;
                   (returncode, stdout, elapsed) = popen testcmd cwd fu
               in (case source gen of
                     [] \<Rightarrow> Inl IndexError
                   | source0 # _ \<Rightarrow>
                       let tup = (testdriver_node, returncode, stdout, elapsed, source0)
                       in Inr (tup, append_result tup bld1))))"

subsection \<open>\<^verbatim>\<open>print_test_summary\<close>\<close>

text \<open>
  The local function \<^verbatim>\<open>get_time(seconds)\<close>, for a float: \<^verbatim>\<open>seconds * 1000\<close> is a float
  product, and \<^verbatim>\<open>%d\<close> cuts the fraction of its float argument off.
\<close>

definition get_time :: "rat \<Rightarrow> string" where
  "get_time seconds =
     (let (m, s) = float_divmod seconds 60 in
      if m = 0 then str_int (py_trunc (float_mul seconds 1000)) @ ''ms''
      else fmt_02d (py_trunc m) @ '':'' @ fmt_02d (py_trunc s))"

text \<open>The first loop over the results: the tests whose exit code is zero.\<close>

fun pass_lines :: "bool \<Rightarrow> utest_result list \<Rightarrow> log_line list" where
  "pass_lines show_out [] = []"
| "pass_lines show_out ((f, code, out, t, src) # lst) =
     (if code = 0 then
        (if show_out then
           [Pprint GREEN (''['' @ abspath f @ '' (TEST)] <<<<<<<<<<''),
            Pprint CYAN out,
            Pprint GREEN ''>>>>>>>>>>'']
         else [Pprint GREEN (abspath f @ '' ('' @ get_time t @ '')'')])
      else []) @ pass_lines show_out lst"

text \<open>The second loop: the tests whose exit code is not zero, always with their output.\<close>

fun fail_lines :: "utest_result list \<Rightarrow> log_line list" where
  "fail_lines [] = []"
| "fail_lines ((f, code, out, t, src) # lst) =
     (if code \<noteq> 0 then
        [Pprint YELLOW (''['' @ abspath f @ '' (TEST)] <<<<<<<<<<''),
         Pprint CYAN out,
         Pprint YELLOW ''>>>>>>>>>>'']
      else []) @ fail_lines lst"

text \<open>The lines printed and the number of failures returned.\<close>

definition print_test_summary :: "build_context \<Rightarrow> log_line list \<times> int" where
  "print_test_summary ctx =
     (let lst = (case utest_results ctx of None \<Rightarrow> [] | Some results \<Rightarrow> results);
          total = int (length lst);
          tfail = int (length (filter (\<lambda>x. fst (snd x) \<noteq> 0) lst))
      in ([Pprint CYAN ''Test Summary'',
           Pprint CYAN (''  tests that pass '' @ str_int (total - tfail) @ ''/'' @ str_int total)]
          @ pass_lines (show_test_out (ctx_options ctx)) lst
          @ [Pprint CYAN (''  tests that fail '' @ str_int tfail @ ''/'' @ str_int total)]
          @ fail_lines lst,
          tfail))"

subsection \<open>\<^verbatim>\<open>generate_coverage_report\<close>\<close>

text \<open>
  The file \<^verbatim>\<open>coverage.log\<close> as the sequence of writes to it: a line printed by this
  module, or the output of a child process whose \<^verbatim>\<open>stdout\<close> and \<^verbatim>\<open>stderr\<close> are the file.
\<close>

datatype log_write = Printed string | Child "string list"

text \<open>
  What the generator has done so far: the lines given to \<^verbatim>\<open>Logs\<close>, the content of the log
  file and the commands started with \<^verbatim>\<open>subprocess.Popen\<close>, oldest first.
\<close>

record coverage_state =
  cov_console :: "log_line list"
  cov_logfile :: "log_write list"
  cov_launched :: "string list list"

definition banner_rule :: string where
  "banner_rule = replicate 79 CHR ''=''"

text \<open>The banner written to the log file before the command \<open>cmd\<close> is started.\<close>

definition banner :: "externals \<Rightarrow> string list \<Rightarrow> log_write list" where
  "banner ext cmd =
     [Printed banner_rule, Printed (''run cmd: '' @ str_cmd ext cmd), Printed banner_rule]"

text \<open>
  The \<^verbatim>\<open>while cmd_idx < cmd_len\<close> loop, with \<^verbatim>\<open>cmd_len = len(cmd_descs)\<close>. The result is
  \<^verbatim>\<open>is_success\<close> and the state when the loop is left.
\<close>

function coverage_loop ::
  "externals \<Rightarrow> (string list \<times> string) list \<Rightarrow> nat \<Rightarrow> coverage_state \<Rightarrow> bool \<times> coverage_state" where
  "coverage_loop ext cmd_descs cmd_idx st =
     (if cmd_idx < length cmd_descs then
        let cmd = fst (cmd_descs ! cmd_idx);
            msg = ''['' @ str_int (int cmd_idx + 1) @ ''/'' @ str_int (int (length cmd_descs))
                  @ ''] '' @ colors_YELLOW ext @ snd (cmd_descs ! cmd_idx) @ colors_NORMAL ext;
            st1 = st\<lparr>cov_console := cov_console st @ [Info msg],
                     cov_logfile := cov_logfile st @ banner ext cmd\<rparr>;
            p = proc ext (cov_launched st1) cmd;
            st2 = st1\<lparr>cov_launched := cov_launched st1 @ [cmd],
                      cov_logfile := cov_logfile st1 @ [Child (snd p)]\<rparr>
        in if fst p \<noteq> 0 then (False, st2)
           else coverage_loop ext cmd_descs (cmd_idx + 1) st2
      else (True, st))"
  by pat_completeness auto
termination
  by (relation "measure (\<lambda>(ext, cmd_descs, cmd_idx, st). length cmd_descs - cmd_idx)") auto

declare coverage_loop.simps [simp del]

text \<open>The directories of the test drivers and of their sources, as the first loop fills them.\<close>

fun dir_paths :: "utest_result list \<Rightarrow> string set \<times> string set \<Rightarrow> string set \<times> string set" where
  "dir_paths [] acc = acc"
| "dir_paths ((tst, code, out, t, src) # lst) (test_dir_paths, src_dir_paths) =
     dir_paths lst (insert (parent_abspath tst) test_dir_paths,
                    insert (parent_abspath src) src_dir_paths)"

text \<open>
  The five commands with their descriptions. \<^verbatim>\<open>ctx.env['GENHTML'][0]\<close> raises
  \<^verbatim>\<open>IndexError\<close> when the list is empty. The second component is
  \<^verbatim>\<open>test_coverage_out_path\<close>.
\<close>

definition coverage_cmd_descs ::
  "externals \<Rightarrow> build_context \<Rightarrow> error + (string list \<times> string) list \<times> string" where
  "coverage_cmd_descs ext ctx =
     (let lst = (case utest_results ctx of None \<Rightarrow> [] | Some results \<Rightarrow> results);
          (test_dir_paths, src_dir_paths) = dir_paths lst ({}, {});
          covdir = path_join ext (abspath (bldnode ctx)) ''_test_coverage'';
          test_info_base = path_join ext covdir ''test_base.info'';
          test_info_run = path_join ext covdir ''test_run.info'';
          test_info_total = path_join ext covdir ''test_total.info'';
          test_info_final = path_join ext covdir ''test_final.info'';
          test_coverage_out_path =
            (case coverage_out (ctx_options ctx) of
               None \<Rightarrow> path_join ext covdir ''report''
             | Some d \<Rightarrow> if d \<noteq> [] then d else path_join ext covdir ''report'');
          lcov_d = concat (map (\<lambda>p. [''-d'', p]) (set_iter ext (test_dir_paths \<union> src_dir_paths)));
          lcov_cmd1 = env_LCOV ctx @ [''--no-checksum'', ''--no-external'', ''-c'', ''-i'',
                                       ''-c'', ''-o'', test_info_base] @ lcov_d;
          lcov_cmd2 = env_LCOV ctx @ [''--no-checksum'', ''--no-external'',
                                       ''-c'', ''-o'', test_info_run] @ lcov_d;
          lcov_cmd3 = env_LCOV ctx @ [''--no-checksum'', ''-a'', test_info_base,
                                       ''-a'', test_info_run, ''-o'', test_info_total];
          lcov_cmd4 = env_LCOV ctx @ [''--no-checksum'', ''--remove'', test_info_total,
                                       ''*.t.cpp'', ''-o'', test_info_final]
      in case env_GENHTML ctx of
           [] \<Rightarrow> Inl IndexError
         | genhtml # _ \<Rightarrow>
             let genhtml_cmd = [genhtml, ''--function-coverage'', ''-o'', test_coverage_out_path,
                                test_info_final]
             in Inr ([(lcov_cmd1, ''Building baseline trace file''),
                      (lcov_cmd2, ''Building test-run trace file''),
                      (lcov_cmd3, ''Combining trace files''),
                      (lcov_cmd4, ''Filtering trace file''),
                      (genhtml_cmd, ''Generating html pages'')],
                     test_coverage_out_path))"

text \<open>
  The generator: the value returned (\<^verbatim>\<open>is_success\<close>) and what it has printed, written to
  the log file and started.
\<close>

definition generate_coverage_report ::
  "externals \<Rightarrow> build_context \<Rightarrow> error + bool \<times> coverage_state" where
  "generate_coverage_report ext ctx =
     (case coverage_cmd_descs ext ctx of
        Inl e \<Rightarrow> Inl e
      | Inr (cmd_descs, test_coverage_out_path) \<Rightarrow>
          let logfile_path = path_join ext (abspath (bldnode ctx)) ''coverage.log'';
              st0 = \<lparr>cov_console = [Pprint CYAN ''Generating Test Coverage Report'',
                                     Pprint GREEN (''  log file: '' @ logfile_path)],
                     cov_logfile = [Printed banner_rule,
                                    Printed (''all cmds: '' @ str_cmd_descs ext cmd_descs),
                                    Printed banner_rule],
                     cov_launched = []\<rparr>;
              r = coverage_loop ext cmd_descs 0 st0;
              is_success = fst r;
              st = snd r;
              st = (if is_success
                    then st\<lparr>cov_console := cov_console st @
                              [Pprint CYAN ''Generated Report'',
                               Pprint YELLOW (''  '' @ path_join ext test_coverage_out_path
                                                       ''index.html'')]\<rparr>
                    else st)
          in Inr (is_success, st))"

subsection \<open>\<^verbatim>\<open>post_build_fun\<close>\<close>

text \<open>
  What the hook has done when it ends: the lines given to \<^verbatim>\<open>Logs\<close> by the hook and by the
  summary, the result of the coverage generator when it was called, the final value of
  the local variable \<^verbatim>\<open>error_msg\<close>, and the message of \<^verbatim>\<open>ctx.fatal\<close> when it was called
  (\<^verbatim>\<open>ctx.fatal\<close> raises the error that ends the build with a failure).
\<close>

record post_build =
  pb_console :: "log_line list"
  pb_coverage :: "(bool \<times> coverage_state) option"
  pb_error_msg :: string
  pb_fatal :: "string option"

text \<open>The last statement: \<^verbatim>\<open>if not is_success: ctx.fatal(...)\<close>.\<close>

definition fatal_if_failed :: "build_context \<Rightarrow> bool \<Rightarrow> string \<Rightarrow> string option" where
  "fatal_if_failed ctx is_success error_msg =
     (if \<not> is_success then Some (error_msg @ '' ('' @ log_timer ctx @ '')'') else None)"

definition post_build_fun :: "externals \<Rightarrow> build_context \<Rightarrow> error + post_build" where
  "post_build_fun ext ctx =
     (let is_success = True;
          summary = print_test_summary ctx;
          num_test_failures = snd summary;
          error_msg = [];
          error_msg = (if num_test_failures > 0 then error_msg @ ''Some tests have failed.''
                       else error_msg);
          is_success = (if num_test_failures > 0 then False else is_success);
          out = (if num_test_failures > 0 then fst summary
                 else fst summary @ [Info ''All tests passed.''])
      in if with_coverage ctx then
           (case generate_coverage_report ext ctx of
              Inl e \<Rightarrow> Inl e
            | Inr cov \<Rightarrow>
                let is_coverage_success = fst cov;
                    is_coverage_success = False;
                    error_msg = (if \<not> is_coverage_success
                                 then error_msg @ CHR 0x0A # ''Failed to generate coverage report.''
                                 else error_msg)
                in Inr \<lparr>pb_console = out, pb_coverage = Some cov, pb_error_msg = error_msg,
                        pb_fatal = fatal_if_failed ctx is_success error_msg\<rparr>)
         else Inr \<lparr>pb_console = out, pb_coverage = None, pb_error_msg = error_msg,
                  pb_fatal = fatal_if_failed ctx is_success error_msg\<rparr>)"

subsection \<open>\<^verbatim>\<open>utest.run\<close> on concurrent workers\<close>

text \<open>
  Where a worker is in the last part of \<^verbatim>\<open>utest.run\<close>: \<open>Idle\<close> before
  \<^verbatim>\<open>testlock.acquire()\<close>, \<open>Locked\<close> with the lock, before
  \<^verbatim>\<open>bld.utest_results.append(tup)\<close>, \<open>Handler\<close> in the \<^verbatim>\<open>except AttributeError\<close> clause,
  before \<^verbatim>\<open>bld.utest_results = [tup]\<close>, and \<open>Appended\<close> in the \<^verbatim>\<open>finally\<close> clause, before
  \<^verbatim>\<open>testlock.release()\<close>.
\<close>

datatype pc = Idle | Locked | Handler | Appended

text \<open>
  A worker runs its test tasks one after the other: \<open>w_todo\<close> holds the tuples it has
  still to store, the first of them being the one of the task it is running.
\<close>

record worker =
  w_pc :: pc
  w_todo :: "utest_result list"

text \<open>The lock \<^verbatim>\<open>testlock\<close> (held or not), the build context and the workers.\<close>

record conc_state =
  cs_lock :: bool
  cs_bld :: build_context
  cs_workers :: "worker list"

text \<open>
  The next statement of worker \<open>w\<close>. \<^verbatim>\<open>acquire\<close> on a held lock blocks: the state stays
  as it is. The attribute lookup of \<^verbatim>\<open>bld.utest_results.append(tup)\<close> raises
  \<^verbatim>\<open>AttributeError\<close> when the attribute does not exist. A worker without a task, or a
  number that is not a worker's, changes nothing.
\<close>

definition worker_step :: "nat \<Rightarrow> conc_state \<Rightarrow> conc_state" where
  "worker_step w s =
     (if w < length (cs_workers s) then
        let wk = cs_workers s ! w in
        case w_todo wk of
          [] \<Rightarrow> s
        | tup # rest \<Rightarrow>
            (case w_pc wk of
               Idle \<Rightarrow>
                 if cs_lock s then s
                 else s\<lparr>cs_lock := True, cs_workers := (cs_workers s)[w := wk\<lparr>w_pc := Locked\<rparr>]\<rparr>
             | Locked \<Rightarrow>
                 (case utest_results (cs_bld s) of
                    Some results \<Rightarrow>
                      s\<lparr>cs_bld := (cs_bld s)\<lparr>utest_results := Some (results @ [tup])\<rparr>,
                        cs_workers := (cs_workers s)[w := wk\<lparr>w_pc := Appended\<rparr>]\<rparr>
                  | None \<Rightarrow> s\<lparr>cs_workers := (cs_workers s)[w := wk\<lparr>w_pc := Handler\<rparr>]\<rparr>)
             | Handler \<Rightarrow>
                 s\<lparr>cs_bld := (cs_bld s)\<lparr>utest_results := Some [tup]\<rparr>,
                   cs_workers := (cs_workers s)[w := wk\<lparr>w_pc := Appended\<rparr>]\<rparr>
             | Appended \<Rightarrow>
                 s\<lparr>cs_lock := False,
                   cs_workers := (cs_workers s)[w := \<lparr>w_pc = Idle, w_todo = rest\<rparr>]\<rparr>)
      else s)"

text \<open>
  An interleaving of the workers is the list of the workers in the order in which they
  take their steps.
\<close>

definition run_schedule :: "nat list \<Rightarrow> conc_state \<Rightarrow> conc_state" where
  "run_schedule sched s = fold worker_step sched s"

text \<open>At the start no worker holds the lock and each has its tuples to store.\<close>

definition conc_init :: "build_context \<Rightarrow> utest_result list list \<Rightarrow> conc_state" where
  "conc_init bld0 todos =
     \<lparr>cs_lock = False, cs_bld = bld0,
      cs_workers = map (\<lambda>todo. \<lparr>w_pc = Idle, w_todo = todo\<rparr>) todos\<rparr>"

text \<open>The result set of a build context, empty while the attribute does not exist.\<close>

definition result_set :: "build_context \<Rightarrow> utest_result list" where
  "result_set b = (case utest_results b of None \<Rightarrow> [] | Some results \<Rightarrow> results)"

text \<open>The tuples a worker has not stored yet.\<close>

definition pending :: "worker \<Rightarrow> utest_result list" where
  "pending wk = (if w_pc wk = Appended then tl (w_todo wk) else w_todo wk)"

text \<open>
  The invariant of the interleavings: without the lock every worker is idle; at most one
  worker is not idle; a worker that is not idle has a task; while a worker is in the
  handler the attribute does not exist; and the stored tuples together with those not
  yet stored are the tuples \<open>M\<close>.
\<close>

definition conc_inv :: "utest_result multiset \<Rightarrow> conc_state \<Rightarrow> bool" where
  "conc_inv M s =
     ((\<not> cs_lock s \<longrightarrow> (\<forall>i < length (cs_workers s). w_pc (cs_workers s ! i) = Idle)) \<and>
      (\<forall>i < length (cs_workers s). \<forall>j < length (cs_workers s).
          w_pc (cs_workers s ! i) \<noteq> Idle \<and> w_pc (cs_workers s ! j) \<noteq> Idle \<longrightarrow> i = j) \<and>
      (\<forall>i < length (cs_workers s). w_pc (cs_workers s ! i) \<noteq> Idle \<longrightarrow> w_todo (cs_workers s ! i) \<noteq> []) \<and>
      (\<forall>i < length (cs_workers s). w_pc (cs_workers s ! i) = Handler \<longrightarrow> utest_results (cs_bld s) = None) \<and>
      mset (result_set (cs_bld s)) + sum_list (map (\<lambda>wk. mset (pending wk)) (cs_workers s)) = M)"

subsection \<open>The link-output directories of the build graph\<close>

text \<open>
  For stating what the environment holds, in the words of the specification rather than
  of the loop: \<open>link_output_dirs\<close> lists, group by group and generator by generator, the
  directory of the first output of every link task; \<open>first_occurrences\<close> keeps of every
  element of a list its first occurrence; \<open>has_link_outputs\<close> says that every link task has
  an output, so that \<^verbatim>\<open>outputs[0]\<close> does not raise.
\<close>

definition tg_dirs :: "task_gen \<Rightarrow> string list" where
  "tg_dirs tg = (case link_task tg of None \<Rightarrow> [] | Some lt \<Rightarrow> map parent_abspath (take 1 (outputs lt)))"

definition link_output_dirs :: "task_gen list list \<Rightarrow> string list" where
  "link_output_dirs gs = concat (map tg_dirs (concat gs))"

primrec first_occurrences :: "'a list \<Rightarrow> 'a list" where
  "first_occurrences [] = []"
| "first_occurrences (x # xs) = x # filter (\<lambda>y. y \<noteq> x) (first_occurrences xs)"

definition has_link_outputs :: "task_gen list list \<Rightarrow> bool" where
  "has_link_outputs gs =
     list_all (\<lambda>tg. case link_task tg of None \<Rightarrow> True | Some lt \<Rightarrow> outputs lt \<noteq> []) (concat gs)"

subsection \<open>The steps of the coverage pipeline\<close>

text \<open>
  For stating what the loop does: \<open>step_result ext cmd_descs i\<close> is the exit code and the
  output of the command \<open>i\<close> (counted from 0) when the commands before it have been
  started, in their order; \<open>step_msg\<close> is the message given to \<^verbatim>\<open>Logs.info\<close> for it, and
  \<open>step_log\<close> is what the step adds to the log file: its banner, which is a line of 79
  equals signs, the line \<^verbatim>\<open>run cmd:\<close> with the command and a second line of equals signs,
  and then the output of its process.
\<close>

definition step_result :: "externals \<Rightarrow> (string list \<times> string) list \<Rightarrow> nat \<Rightarrow> int \<times> string list" where
  "step_result ext cmd_descs i = proc ext (map fst (take i cmd_descs)) (fst (cmd_descs ! i))"

definition step_msg :: "externals \<Rightarrow> (string list \<times> string) list \<Rightarrow> nat \<Rightarrow> string" where
  "step_msg ext cmd_descs i =
     ''['' @ str_int (int i + 1) @ ''/'' @ str_int (int (length cmd_descs)) @ ''] ''
     @ colors_YELLOW ext @ snd (cmd_descs ! i) @ colors_NORMAL ext"

definition step_log :: "externals \<Rightarrow> (string list \<times> string) list \<Rightarrow> nat \<Rightarrow> log_write list" where
  "step_log ext cmd_descs i =
     [Printed (replicate 79 CHR ''=''),
      Printed (''run cmd: '' @ str_cmd ext (fst (cmd_descs ! i))),
      Printed (replicate 79 CHR ''=''),
      Child (snd (step_result ext cmd_descs i))]"

subsection \<open>Example inputs\<close>

definition example_options :: options where
  "example_options =
     \<lparr>test = ''run'', test_v = 0, test_j = 4, show_test_out = False, test_timeout = 200,
      test_junit = True, coverage_out = None, valgrind = True, valgrind_tool = ''memcheck''\<rparr>"

definition example_ext :: externals where
  "example_ext =
     \<lparr>sys_executable = ''/usr/bin/python'', test_runner_path = ''/repo/bin/bde_runtest.py'',
      is_win32 = False, unversioned_sys_platform = ''linux'', pathsep = '':'',
      environ = [''LD_LIBRARY_PATH'' \<mapsto> ''/usr/lib'', ''HOME'' \<mapsto> ''/root''],
      path_join = (\<lambda>a b. a @ ''/'' @ b),
      set_iter = (\<lambda>S. filter (\<lambda>p. p \<in> S) [''/build/g'', ''/src/g'']),
      str_cmd = join_str '' '',
      str_cmd_descs = (\<lambda>cds. join_str ''; '' (map (\<lambda>cd. join_str '' '' (fst cd)) cds)),
      colors_YELLOW = [], colors_NORMAL = [],
      proc = (\<lambda>launched cmd. (0, []))\<rparr>"

definition example_test :: node where
  "example_test = \<lparr>abspath = ''/build/g/a.t'', parent_abspath = ''/build/g''\<rparr>"

definition example_source :: node where
  "example_source = \<lparr>abspath = ''/src/g/a.t.cpp'', parent_abspath = ''/src/g''\<rparr>"

definition example_ctx :: build_context where
  "example_ctx =
     \<lparr>groups = [], utest_results = None, all_test_paths = None, ctx_options = example_options,
      with_coverage = False, env_LCOV = [''lcov'', ''--gcov-tool'', ''gcov''],
      env_GENHTML = [''genhtml''],
      bldnode = \<lparr>abspath = ''/build'', parent_abspath = ''/''\<rparr>,
      path = \<lparr>abspath = ''/src'', parent_abspath = ''/''\<rparr>,
      log_timer = ''1.5s''\<rparr>"

definition example_results :: "utest_result list" where
  "example_results =
     [(\<lparr>abspath = ''/build/g/a_t'', parent_abspath = ''/build/g''\<rparr>, 0, ''ok'', 1 / 100,
       \<lparr>abspath = ''/src/g/a.t.cpp'', parent_abspath = ''/src/g''\<rparr>),
      (\<lparr>abspath = ''/build/g/b_t'', parent_abspath = ''/build/g''\<rparr>, 1, ''b failed'', 70,
       \<lparr>abspath = ''/src/g/b.t.cpp'', parent_abspath = ''/src/g''\<rparr>),
      (\<lparr>abspath = ''/build/g/c_t'', parent_abspath = ''/build/g''\<rparr>, 0, ''ok'', 1 / 2,
       \<lparr>abspath = ''/src/g/c.t.cpp'', parent_abspath = ''/src/g''\<rparr>)]"

definition example_cov_ctx :: build_context where
  "example_cov_ctx = example_ctx\<lparr>utest_results := Some (take 1 example_results), with_coverage := True\<rparr>"

definition example_fail_ext :: externals where
  "example_fail_ext =
     example_ext\<lparr>proc := (\<lambda>launched cmd. if length launched = 2 then (1, [''lcov: ERROR''])
                                            else (0, []))\<rparr>"

definition example_cmd_descs :: "(string list \<times> string) list" where
  "example_cmd_descs =
     [([''lcov'', ''--gcov-tool'', ''gcov'', ''--no-checksum'', ''--no-external'', ''-c'', ''-i'',
        ''-c'', ''-o'', ''/build/_test_coverage/test_base.info'', ''-d'', ''/build/g'',
        ''-d'', ''/src/g''], ''Building baseline trace file''),
      ([''lcov'', ''--gcov-tool'', ''gcov'', ''--no-checksum'', ''--no-external'',
        ''-c'', ''-o'', ''/build/_test_coverage/test_run.info'', ''-d'', ''/build/g'',
        ''-d'', ''/src/g''], ''Building test-run trace file''),
      ([''lcov'', ''--gcov-tool'', ''gcov'', ''--no-checksum'',
        ''-a'', ''/build/_test_coverage/test_base.info'',
        ''-a'', ''/build/_test_coverage/test_run.info'',
        ''-o'', ''/build/_test_coverage/test_total.info''], ''Combining trace files''),
      ([''lcov'', ''--gcov-tool'', ''gcov'', ''--no-checksum'',
        ''--remove'', ''/build/_test_coverage/test_total.info'', ''*.t.cpp'',
        ''-o'', ''/build/_test_coverage/test_final.info''], ''Filtering trace file''),
      ([''genhtml'', ''--function-coverage'', ''-o'', ''/build/_test_coverage/report'',
        ''/build/_test_coverage/test_final.info''], ''Generating html pages'')]"

definition example_groups :: "task_gen list list" where
  "example_groups =
     [[\<lparr>link_task = Some \<lparr>inputs = [], outputs = [\<lparr>abspath = ''/build/g/libg.so'', parent_abspath = ''/build/g''\<rparr>]\<rparr>,
        source = []\<rparr>,
       \<lparr>link_task = None, source = []\<rparr>],
      [\<lparr>link_task = Some \<lparr>inputs = [], outputs = [\<lparr>abspath = ''/build/h/libh.so'', parent_abspath = ''/build/h''\<rparr>]\<rparr>,
        source = []\<rparr>,
       \<lparr>link_task = Some \<lparr>inputs = [], outputs = [example_test]\<rparr>, source = [example_source]\<rparr>]]"

definition example_bld :: build_context where
  "example_bld = example_ctx\<lparr>groups := example_groups\<rparr>"

definition example_schedule :: "nat list" where
  "example_schedule = [0, 1, 0, 1, 0, 0, 1, 0, 1, 1, 1, 1, 1]"

definition example_todos :: "utest_result list list" where
  "example_todos = [take 1 example_results, drop 1 example_results]"

section \<open>Properties\<close>

subsection \<open>The decision to run a test\<close>

text \<open>
  Claim C5. With \<^verbatim>\<open>--test none\<close> or \<^verbatim>\<open>--test build\<close> (with any mode other than \<^verbatim>\<open>run\<close>)
  the task is skipped whatever the staleness check would say. With \<^verbatim>\<open>--test run\<close> a
  \<^verbatim>\<open>SKIP_ME\<close> of the staleness check becomes \<^verbatim>\<open>RUN_ME\<close>, and every other status of the
  staleness check is returned as it is.
\<close>

theorem runnable_status_decision:
  "(test opts = ''none'' \<or> test opts = ''build'' \<longrightarrow> runnable_status opts s = SKIP_ME) \<and>
   (test opts \<noteq> ''run'' \<longrightarrow> runnable_status opts s = SKIP_ME) \<and>
   (test opts = ''run'' \<and> s = SKIP_ME \<longrightarrow> runnable_status opts s = RUN_ME) \<and>
   (test opts = ''run'' \<and> s \<noteq> SKIP_ME \<longrightarrow> runnable_status opts s = s)"
  by (auto simp: runnable_status_def)

theorem runnable_status_decision_witness:
  "runnable_status (example_options\<lparr>test := ''build''\<rparr>) RUN_ME = SKIP_ME \<and>
   runnable_status (example_options\<lparr>test := ''none''\<rparr>) ASK_LATER = SKIP_ME \<and>
   runnable_status example_options SKIP_ME = RUN_ME \<and>
   runnable_status example_options ASK_LATER = ASK_LATER"
  using runnable_status_decision [of "example_options\<lparr>test := ''build''\<rparr>" RUN_ME]
    runnable_status_decision [of "example_options\<lparr>test := ''none''\<rparr>" ASK_LATER]
    runnable_status_decision [of example_options SKIP_ME]
    runnable_status_decision [of example_options ASK_LATER]
  by (simp add: example_options_def)

subsection \<open>Formatting a duration\<close>

lemma round_double_0: "round_double 0 = 0"
  by (simp add: round_double_def)

lemma round_half_even_ge: "of_int N \<le> r \<Longrightarrow> N \<le> round_half_even r"
proof -
  assume "of_int N \<le> r"
  then have "N \<le> \<lfloor>r\<rfloor>" by (simp add: le_floor_iff)
  then show ?thesis by (auto simp: round_half_even_def Let_def)
qed

lemma round_half_even_of_int: "round_half_even (of_int N) = N"
  by (simp add: round_half_even_def)

lemma binary_exponent_bounds:
  assumes "1 \<le> x"
  shows "0 \<le> binary_exponent x" "2 ^ nat (binary_exponent x) \<le> x"
    "x < 2 ^ nat (binary_exponent x + 1)"
proof -
  have n: "0 < \<lfloor>x\<rfloor>" using assms by simp
  from n have b1: "1 \<le> bitlen \<lfloor>x\<rfloor>" by (auto simp: bitlen_alt_def)
  show "0 \<le> binary_exponent x" using assms b1 by (simp add: binary_exponent_def)
  have "(2::int) ^ nat (bitlen \<lfloor>x\<rfloor> - 1) \<le> \<lfloor>x\<rfloor>" using bitlen_bounds [OF n] by simp
  then have "(of_int ((2::int) ^ nat (bitlen \<lfloor>x\<rfloor> - 1)) :: rat) \<le> of_int \<lfloor>x\<rfloor>"
    by (simp only: of_int_le_iff)
  also have "\<dots> \<le> x" by simp
  finally show "2 ^ nat (binary_exponent x) \<le> x" using assms by (simp add: binary_exponent_def)
  have "\<lfloor>x\<rfloor> + 1 \<le> 2 ^ nat (bitlen \<lfloor>x\<rfloor>)" using bitlen_bounds [OF n] by simp
  then have "(of_int (\<lfloor>x\<rfloor> + 1) :: rat) \<le> of_int (2 ^ nat (bitlen \<lfloor>x\<rfloor>))"
    by (simp only: of_int_le_iff)
  moreover have "x < of_int (\<lfloor>x\<rfloor> + 1)" by linarith
  ultimately have "x < of_int ((2::int) ^ nat (bitlen \<lfloor>x\<rfloor>))" by linarith
  then show "x < 2 ^ nat (binary_exponent x + 1)" using assms by (simp add: binary_exponent_def)
qed

lemma round_double_scaled:
  assumes "1 \<le> x"
  shows "round_double x =
           of_int (round_half_even (x / 2 powi (binary_exponent x - 52))) * 2 powi (binary_exponent x - 52)"
proof -
  have "0 \<le> binary_exponent x" using assms by (rule binary_exponent_bounds)
  then have "max (binary_exponent x - 52) (- 1074) = binary_exponent x - 52" by simp
  moreover have "\<bar>x\<bar> = x" "x \<noteq> 0" using assms by simp_all
  ultimately show ?thesis by (simp add: round_double_def Let_def)
qed

lemma round_double_of_int:
  assumes "1 \<le> n" "n < 2 ^ 53"
  shows "round_double (of_int n) = of_int n"
proof -
  let ?x = "of_int n :: rat"
  let ?E = "binary_exponent ?x"
  have x: "1 \<le> ?x" using assms(1) by simp
  note b = binary_exponent_bounds [OF x]
  have "(2::rat) ^ nat ?E \<le> of_int n" using b(2) .
  also have "\<dots> < 2 ^ 53" using assms(2) by (metis of_int_less_iff of_int_numeral of_int_power)
  finally have lt: "(2::rat) ^ nat ?E < 2 ^ 53" .
  have "nat ?E < 53" by (rule power_less_imp_less_exp [OF _ lt]) simp
  then have E: "?E \<le> 52" by simp
  define k where "k = nat (52 - ?E)"
  have u: "?E - 52 = - int k" using E by (simp add: k_def)
  have p: "(2::rat) powi (?E - 52) = inverse (2 ^ k)"
    unfolding u by (simp add: power_int_minus)
  have "?x / 2 powi (?E - 52) = of_int (n * 2 ^ k)" unfolding p by (simp add: field_simps)
  then have "round_half_even (?x / 2 powi (?E - 52)) = n * 2 ^ k"
    by (simp only: round_half_even_of_int)
  then show ?thesis
    unfolding round_double_scaled [OF x] p by (simp add: field_simps)
qed

lemma round_double_ge:
  assumes "1 \<le> c" "c < 2 ^ 53" "of_int c \<le> x"
  shows "of_int c \<le> round_double x"
proof -
  let ?E = "binary_exponent x"
  have "(1::rat) \<le> of_int c" using assms(1) by simp
  then have x: "1 \<le> x" using assms(3) by linarith
  note b = binary_exponent_bounds [OF x]
  show ?thesis
  proof (cases "?E \<le> 52")
    case True
    define k where "k = nat (52 - ?E)"
    have u: "?E - 52 = - int k" using True by (simp add: k_def)
    have p: "(2::rat) powi (?E - 52) = inverse (2 ^ k)"
      unfolding u by (simp add: power_int_minus)
    have "of_int (c * 2 ^ k) \<le> x / 2 powi (?E - 52)"
      unfolding p using assms(3) by (simp add: field_simps)
    then have "c * 2 ^ k \<le> round_half_even (x / 2 powi (?E - 52))"
      by (rule round_half_even_ge)
    then have "(of_int (c * 2 ^ k) :: rat) \<le> of_int (round_half_even (x / 2 powi (?E - 52)))"
      by (simp only: of_int_le_iff)
    then have "(of_int (c * 2 ^ k) :: rat) * inverse (2 ^ k) \<le>
               of_int (round_half_even (x / 2 powi (?E - 52))) * inverse (2 ^ k)"
      by (rule mult_right_mono) simp
    then show ?thesis
      unfolding round_double_scaled [OF x] p by (simp add: field_simps)
  next
    case False
    define k where "k = nat (?E - 52)"
    have k: "0 < k" using False by (simp add: k_def)
    have u: "?E - 52 = int k" using False by (simp add: k_def)
    have E: "nat ?E = 52 + k" using False by (simp add: k_def)
    have p: "(2::rat) powi (?E - 52) = 2 ^ k" unfolding u by simp
    have "(2::rat) ^ 52 * 2 ^ k \<le> x" using b(2) unfolding E by (simp add: power_add)
    then have "of_int (2 ^ 52) \<le> x / 2 powi (?E - 52)"
      unfolding p by (simp add: field_simps)
    then have "2 ^ 52 \<le> round_half_even (x / 2 powi (?E - 52))"
      by (rule round_half_even_ge)
    then have "(of_int (2 ^ 52) :: rat) \<le> of_int (round_half_even (x / 2 powi (?E - 52)))"
      by (simp only: of_int_le_iff)
    then have "(of_int (2 ^ 52) :: rat) * 2 ^ k \<le>
               of_int (round_half_even (x / 2 powi (?E - 52))) * 2 ^ k"
      by (rule mult_right_mono) simp
    then have r: "(2::rat) ^ 52 * 2 ^ k \<le> round_double x"
      unfolding round_double_scaled [OF x] p by simp
    have "(2::rat) ^ 1 \<le> 2 ^ k" using k by (intro power_increasing) simp_all
    then have "(2::rat) ^ 52 * 2 ^ 1 \<le> 2 ^ 52 * 2 ^ k" by (intro mult_left_mono) simp_all
    then have "(2::rat) ^ 53 \<le> 2 ^ 52 * 2 ^ k" by simp
    moreover have "(of_int c :: rat) < 2 ^ 53"
      using assms(2) by (metis of_int_less_iff of_int_numeral of_int_power)
    ultimately show ?thesis using r by linarith
  qed
qed

lemma floor_div_60: "\<lfloor>t / 60\<rfloor> = \<lfloor>t :: rat\<rfloor> div 60"
  by linarith

lemma float_fmod_60:
  assumes "0 \<le> t"
  shows "float_fmod t 60 = t - 60 * of_int (\<lfloor>t\<rfloor> div 60)"
proof -
  have "py_trunc (t / 60) = \<lfloor>t / 60\<rfloor>" using assms by (simp add: py_trunc_def)
  then show ?thesis by (simp add: float_fmod_def floor_div_60)
qed

lemma float_divmod_lt_60:
  assumes "0 \<le> t" "t < 60"
  shows "float_divmod t 60 = (0, t)"
proof -
  have "\<lfloor>t\<rfloor> div 60 = 0" using assms by linarith
  then have "float_fmod t 60 = t" using assms(1) by (simp add: float_fmod_60)
  then show ?thesis
    using assms(1)
    by (simp add: float_divmod_def Let_def float_sub_def float_div_def round_double_0)
qed

lemma seconds_part:
  "\<lfloor>t - 60 * of_int (\<lfloor>t\<rfloor> div 60)\<rfloor> = \<lfloor>t :: rat\<rfloor> mod 60"
  "0 \<le> t - 60 * of_int (\<lfloor>t\<rfloor> div 60)"
proof -
  have "t - 60 * of_int (\<lfloor>t\<rfloor> div 60) = t - of_int (60 * (\<lfloor>t\<rfloor> div 60))"
    by simp
  then have "\<lfloor>t - 60 * of_int (\<lfloor>t\<rfloor> div 60)\<rfloor> = \<lfloor>t\<rfloor> - 60 * (\<lfloor>t\<rfloor> div 60)"
    by (simp only: floor_diff_of_int)
  then show s: "\<lfloor>t - 60 * of_int (\<lfloor>t\<rfloor> div 60)\<rfloor> = \<lfloor>t\<rfloor> mod 60"
    by (simp add: minus_mult_div_eq_mod)
  have "0 \<le> \<lfloor>t\<rfloor> mod 60" by simp
  then show "0 \<le> t - 60 * of_int (\<lfloor>t\<rfloor> div 60)"
    using s by linarith
qed

lemma float_divmod_ge_60:
  assumes "60 \<le> t"
  shows "\<exists>m. float_divmod t 60 = (m, t - 60 * of_int (\<lfloor>t\<rfloor> div 60)) \<and> 1 \<le> m"
proof -
  let ?k = "\<lfloor>t\<rfloor> div 60"
  let ?s = "t - 60 * of_int ?k"
  have k: "1 \<le> ?k" using assms by linarith
  have m0: "float_fmod t 60 = ?s" using assms by (simp add: float_fmod_60)
  have s0: "0 \<le> ?s" by (rule seconds_part)
  have "(of_int 60 :: rat) \<le> t - ?s" using k by simp
  then have "of_int 60 \<le> float_sub t ?s"
    unfolding float_sub_def by (intro round_double_ge) simp_all
  then have "of_int 1 \<le> float_sub t ?s / 60" by simp
  then have d: "of_int 1 \<le> float_div (float_sub t ?s) 60"
    unfolding float_div_def by (intro round_double_ge) simp_all
  let ?d = "float_div (float_sub t ?s) 60"
  have f: "1 \<le> \<lfloor>?d\<rfloor>" using d by (simp add: le_floor_iff)
  have "of_int 1 \<le> (of_int \<lfloor>?d\<rfloor> :: rat) + 1" using f by simp
  then have a: "of_int 1 \<le> float_add (of_int \<lfloor>?d\<rfloor>) 1"
    unfolding float_add_def by (intro round_double_ge) simp_all
  have nz: "?d \<noteq> 0" using d by auto
  have adj: "\<not> t < 60 * of_int ?k" using s0 by linarith
  have "float_divmod t 60 =
          (if 1 / 2 < float_sub ?d (of_int \<lfloor>?d\<rfloor>) then float_add (of_int \<lfloor>?d\<rfloor>) 1
           else of_int \<lfloor>?d\<rfloor>, ?s)"
    unfolding float_divmod_def m0 Let_def using nz adj by simp
  then show ?thesis using a f by auto
qed

lemma float_divmod_exact:
  assumes "60 \<le> t" "t < 2 ^ 53"
  shows "float_divmod t 60 = (of_int (\<lfloor>t\<rfloor> div 60), t - 60 * of_int (\<lfloor>t\<rfloor> div 60))"
proof -
  let ?k = "\<lfloor>t\<rfloor> div 60"
  let ?s = "t - 60 * of_int ?k"
  have k: "1 \<le> ?k" using assms by linarith
  have "\<lfloor>t\<rfloor> < 2 ^ 53" using assms(2) by (simp add: floor_less_iff)
  then have k53: "60 * ?k < 2 ^ 53" "?k < 2 ^ 53" using k by linarith+
  have m0: "float_fmod t 60 = ?s" using assms by (simp add: float_fmod_60)
  have s0: "0 \<le> ?s" by (rule seconds_part)
  have "t - ?s = of_int (60 * ?k)" by simp
  then have "float_sub t ?s = of_int (60 * ?k)"
    unfolding float_sub_def using k k53(1) by (simp only: round_double_of_int)
  then have "float_div (float_sub t ?s) 60 = round_double (of_int ?k)"
    by (simp add: float_div_def)
  then have d: "float_div (float_sub t ?s) 60 = of_int ?k"
    using k k53(2) by (simp only: round_double_of_int)
  have nz: "(of_int ?k :: rat) \<noteq> 0" using k by simp
  have adj: "\<not> t < 60 * of_int ?k" using s0 by linarith
  show ?thesis
    unfolding float_divmod_def m0 Let_def d using nz adj
    by (simp add: float_sub_def round_double_0)
qed

text \<open>
  Claim C4. A duration \<open>t\<close> with \<open>0 \<le> t < 60\<close> is printed as \<^verbatim>\<open>%d\<close> of the float product
  \<^verbatim>\<open>t * 1000\<close> followed by \<^verbatim>\<open>ms\<close>. A duration of at least 60 seconds is printed as
  minutes and seconds, each with \<^verbatim>\<open>%02d\<close>, separated by a colon: the minutes are the
  quotient of \<^verbatim>\<open>divmod(t, 60)\<close>, at least 1, and the seconds are the whole seconds of \<open>t\<close>
  modulo 60; below \<open>2 ^ 53\<close> seconds the minutes are the whole seconds of \<open>t\<close> divided by 60.
\<close>

theorem get_time_format:
  "(0 \<le> t \<and> t < 60 \<longrightarrow> get_time t = str_int (py_trunc (float_mul t 1000)) @ ''ms'') \<and>
   (60 \<le> t \<longrightarrow>
      (\<exists>m s. float_divmod t 60 = (m, s) \<and> 1 \<le> m \<and> \<lfloor>s\<rfloor> = \<lfloor>t\<rfloor> mod 60 \<and>
             get_time t = fmt_02d (py_trunc m) @ '':'' @ fmt_02d (\<lfloor>t\<rfloor> mod 60))) \<and>
   (60 \<le> t \<and> t < 2 ^ 53 \<longrightarrow>
      get_time t = fmt_02d (\<lfloor>t\<rfloor> div 60) @ '':'' @ fmt_02d (\<lfloor>t\<rfloor> mod 60))"
proof (intro conjI impI)
  assume "0 \<le> t \<and> t < 60"
  then show "get_time t = str_int (py_trunc (float_mul t 1000)) @ ''ms''"
    by (simp add: get_time_def float_divmod_lt_60)
next
  assume t: "60 \<le> t"
  let ?s = "t - 60 * of_int (\<lfloor>t\<rfloor> div 60)"
  from float_divmod_ge_60 [OF t]
  obtain m where m: "float_divmod t 60 = (m, ?s)" "1 \<le> m" by blast
  have s: "py_trunc ?s = \<lfloor>t\<rfloor> mod 60" "\<lfloor>?s\<rfloor> = \<lfloor>t\<rfloor> mod 60"
    using seconds_part [of t] by (simp_all add: py_trunc_def)
  have "get_time t = fmt_02d (py_trunc m) @ '':'' @ fmt_02d (\<lfloor>t\<rfloor> mod 60)"
    using m s by (simp add: get_time_def)
  with m s show "\<exists>m s. float_divmod t 60 = (m, s) \<and> 1 \<le> m \<and> \<lfloor>s\<rfloor> = \<lfloor>t\<rfloor> mod 60 \<and>
             get_time t = fmt_02d (py_trunc m) @ '':'' @ fmt_02d (\<lfloor>t\<rfloor> mod 60)"
    by blast
next
  assume t: "60 \<le> t \<and> t < 2 ^ 53"
  let ?k = "\<lfloor>t\<rfloor> div 60"
  let ?s = "t - 60 * of_int ?k"
  have k: "1 \<le> ?k" using t by linarith
  have s: "py_trunc ?s = \<lfloor>t\<rfloor> mod 60"
    using seconds_part [of t] by (simp add: py_trunc_def)
  have m: "py_trunc (of_int ?k) = ?k" using k by (simp add: py_trunc_def)
  have nz: "(of_int ?k :: rat) \<noteq> 0" using k by simp
  show "get_time t = fmt_02d (\<lfloor>t\<rfloor> div 60) @ '':'' @ fmt_02d (\<lfloor>t\<rfloor> mod 60)"
    using t s m nz by (simp add: get_time_def float_divmod_exact)
qed

lemma float_mul_examples:
  "float_mul (1 / 4) 1000 = 250"
  "round_double (5188146770730811 / 576460752303423488) = 5188146770730811 / 576460752303423488"
  "float_mul (5188146770730811 / 576460752303423488) 1000 = 9"
  by code_simp+

text \<open>
  A quarter of a second, 125 seconds, and the double nearest to 0.009, whose exact
  product with 1000 lies below 9 and is rounded to 9.
\<close>

theorem get_time_format_witness:
  "(0::rat) \<le> 1 / 4 \<and> (1 / 4 :: rat) < 60 \<and> get_time (1 / 4) = ''250ms'' \<and>
   (60::rat) \<le> 125 \<and> (125::rat) < 2 ^ 53 \<and> get_time 125 = ''02:05'' \<and>
   (0::rat) \<le> 5188146770730811 / 576460752303423488 \<and>
   (5188146770730811 / 576460752303423488 :: rat) < 60 \<and>
   get_time (5188146770730811 / 576460752303423488) = ''9ms''"
  using get_time_format [of "1 / 4"] get_time_format [of 125]
    get_time_format [of "5188146770730811 / 576460752303423488"] float_mul_examples
  by (simp add: py_trunc_def str_int_def fmt_02d_def str_nat.simps digit_char_def)

subsection \<open>The command line of the test runner\<close>

text \<open>
  Claim C10. The command line begins with the interpreter, the runner, the verbosity, the
  timeout, the number of jobs and the path of the test driver. With \<^verbatim>\<open>--test-junit\<close> the
  next argument is \<^verbatim>\<open>--junit=\<close> followed by that same path and \<^verbatim>\<open>-junit.xml\<close>, and it is
  the only argument beginning with \<^verbatim>\<open>--junit=\<close> among the flags (all arguments except
  the interpreter, the runner and the path of the test driver); without \<^verbatim>\<open>--test-junit\<close>
  no flag begins with \<^verbatim>\<open>--junit=\<close>.
\<close>

theorem get_testcmd_junit:
  "take 6 (get_testcmd ext opts n) =
     [sys_executable ext, test_runner_path ext, ''--verbosity='' @ str_int (test_v opts),
      ''--timeout='' @ str_int (test_timeout opts), ''-j'' @ str_int (test_j opts), abspath n] \<and>
   (test_junit opts \<longrightarrow>
      get_testcmd ext opts n ! 6 = ''--junit='' @ abspath n @ ''-junit.xml'' \<and>
      filter (\<lambda>a. take 8 a = ''--junit='')
        (take 3 (drop 2 (get_testcmd ext opts n)) @ drop 6 (get_testcmd ext opts n)) =
        [''--junit='' @ abspath n @ ''-junit.xml'']) \<and>
   (\<not> test_junit opts \<longrightarrow>
      filter (\<lambda>a. take 8 a = ''--junit='')
        (take 3 (drop 2 (get_testcmd ext opts n)) @ drop 6 (get_testcmd ext opts n)) = [])"
  by (simp add: get_testcmd_def Let_def)

theorem get_testcmd_junit_witness:
  "test_junit example_options \<and>
   get_testcmd example_ext example_options example_test ! 6 = ''--junit=/build/g/a.t-junit.xml'' \<and>
   \<not> test_junit (example_options\<lparr>test_junit := False\<rparr>) \<and>
   filter (\<lambda>a. take 8 a = ''--junit='')
     (take 3 (drop 2 (get_testcmd example_ext (example_options\<lparr>test_junit := False\<rparr>) example_test))
      @ drop 6 (get_testcmd example_ext (example_options\<lparr>test_junit := False\<rparr>) example_test)) = []"
  using get_testcmd_junit [of example_ext example_options example_test]
    get_testcmd_junit [of example_ext "example_options\<lparr>test_junit := False\<rparr>" example_test]
  by (simp add: example_options_def example_test_def)

subsection \<open>A build without test results\<close>

lemma print_test_summary_empty:
  assumes "utest_results ctx = None \<or> utest_results ctx = Some []"
  shows "print_test_summary ctx =
           ([Pprint CYAN ''Test Summary'', Pprint CYAN ''  tests that pass 0/0'',
             Pprint CYAN ''  tests that fail 0/0''], 0)"
  using assms
  by (auto simp: print_test_summary_def str_int_def str_nat.simps digit_char_def)

text \<open>
  Claim C9. When the build context has no results (the attribute \<^verbatim>\<open>utest_results\<close> does
  not exist, or is empty), the summary prints \<^verbatim>\<open>0/0\<close> for the passing and for the failing
  tests and returns 0; when coverage is not enabled the post-build hook then logs
  \<^verbatim>\<open>All tests passed.\<close> and does not call \<^verbatim>\<open>ctx.fatal\<close>.
\<close>

theorem no_results_summary_and_post_build:
  assumes "utest_results ctx = None \<or> utest_results ctx = Some []"
  shows "print_test_summary ctx =
           ([Pprint CYAN ''Test Summary'', Pprint CYAN ''  tests that pass 0/0'',
             Pprint CYAN ''  tests that fail 0/0''], 0) \<and>
         (\<not> with_coverage ctx \<longrightarrow>
            post_build_fun ext ctx =
              Inr \<lparr>pb_console = [Pprint CYAN ''Test Summary'', Pprint CYAN ''  tests that pass 0/0'',
                                  Pprint CYAN ''  tests that fail 0/0'', Info ''All tests passed.''],
                   pb_coverage = None, pb_error_msg = [], pb_fatal = None\<rparr>)"
  using print_test_summary_empty [OF assms]
  by (simp add: post_build_fun_def fatal_if_failed_def)

theorem no_results_summary_and_post_build_witness:
  "utest_results example_ctx = None \<and> \<not> with_coverage example_ctx \<and>
   snd (print_test_summary example_ctx) = 0 \<and>
   (\<exists>r. post_build_fun example_ext example_ctx = Inr r \<and> pb_fatal r = None \<and>
        last (pb_console r) = Info ''All tests passed.'')"
  using no_results_summary_and_post_build [of example_ctx example_ext]
  by (simp add: example_ctx_def)

subsection \<open>The counts of the summary\<close>

lemma pass_lines_concat: "pass_lines s lst = concat (map (\<lambda>x. pass_lines s [x]) lst)"
  by (induction lst) auto

lemma fail_lines_concat: "fail_lines lst = concat (map (\<lambda>x. fail_lines [x]) lst)"
  by (induction lst) auto

lemma mset_concat_map_perm:
  assumes "mset xs = mset ys"
  shows "mset (concat (map f xs)) = mset (concat (map f ys))"
proof -
  have "mset (concat (map f zs)) = sum_mset (image_mset (\<lambda>x. mset (f x)) (mset zs))" for zs
    by (induction zs) auto
  then show ?thesis using assms by simp
qed

lemma mset_pass_lines: "mset xs = mset ys \<Longrightarrow> mset (pass_lines s xs) = mset (pass_lines s ys)"
  using mset_concat_map_perm [of xs ys "\<lambda>x. pass_lines s [x]"]
    pass_lines_concat [of s xs] pass_lines_concat [of s ys] by simp

lemma mset_fail_lines: "mset xs = mset ys \<Longrightarrow> mset (fail_lines xs) = mset (fail_lines ys)"
  using mset_concat_map_perm [of xs ys "\<lambda>x. fail_lines [x]"]
    fail_lines_concat [of xs] fail_lines_concat [of ys] by simp

lemma length_pass_lines:
  "length (pass_lines s lst) = (if s then 3 else 1) * length (filter (\<lambda>x. fst (snd x) = 0) lst)"
  by (induction lst) auto

lemma length_fail_lines:
  "length (fail_lines lst) = 3 * length (filter (\<lambda>x. fst (snd x) \<noteq> 0) lst)"
  by (induction lst) auto

lemma length_filter_perm:
  assumes "mset xs = mset ys"
  shows "length (filter P xs) = length (filter P ys)"
proof -
  have "mset (filter P xs) = mset (filter P ys)" using assms by simp
  then show ?thesis by (rule mset_eq_length)
qed

text \<open>
  Claim C3. For results \<open>lst\<close> of which \<open>N\<close> is the number and \<open>k\<close> the number with a
  nonzero exit code, \<open>0 \<le> k \<le> N\<close>, the summary prints \<open>N - k\<close> of \<open>N\<close> as passing, then the
  lines \<open>P\<close> of the passing tests, then \<open>k\<close> of \<open>N\<close> as failing, then the lines \<open>F\<close> of the
  failing tests (three lines for each), and returns \<open>k\<close>. For the same results appended in
  any other order \<open>lst'\<close> it prints the same two counts, returns the same \<open>k\<close>, and the
  lines of the passing and of the failing tests are the same up to their order.
\<close>

theorem print_test_summary_counts:
  assumes "utest_results ctx = Some lst"
    and "mset lst' = mset lst"
    and "N = int (length lst)"
    and "k = int (length (filter (\<lambda>x. fst (snd x) \<noteq> 0) lst))"
  shows "0 \<le> k \<and> k \<le> N \<and>
         (\<exists>P F P' F'.
            print_test_summary ctx =
              ([Pprint CYAN ''Test Summary'',
                Pprint CYAN (''  tests that pass '' @ str_int (N - k) @ ''/'' @ str_int N)]
               @ P @
               [Pprint CYAN (''  tests that fail '' @ str_int k @ ''/'' @ str_int N)]
               @ F, k) \<and>
            print_test_summary (ctx\<lparr>utest_results := Some lst'\<rparr>) =
              ([Pprint CYAN ''Test Summary'',
                Pprint CYAN (''  tests that pass '' @ str_int (N - k) @ ''/'' @ str_int N)]
               @ P' @
               [Pprint CYAN (''  tests that fail '' @ str_int k @ ''/'' @ str_int N)]
               @ F', k) \<and>
            int (length P) = (if show_test_out (ctx_options ctx) then 3 else 1) * (N - k) \<and>
            int (length F) = 3 * k \<and>
            mset P' = mset P \<and> mset F' = mset F)"
proof -
  let ?s = "show_test_out (ctx_options ctx)"
  have len: "length lst' = length lst" using assms(2) by (rule mset_eq_length)
  have k': "length (filter (\<lambda>x. fst (snd x) \<noteq> 0) lst') = length (filter (\<lambda>x. fst (snd x) \<noteq> 0) lst)"
    using assms(2) by (rule length_filter_perm)
  have kN: "0 \<le> k \<and> k \<le> N" using assms(3,4) by simp
  have pass: "int (length (filter (\<lambda>x. fst (snd x) = 0) lst)) = N - k"
    using sum_length_filter_compl [of "\<lambda>x. fst (snd x) = 0" lst] assms(3,4) by simp
  have 1: "print_test_summary ctx =
              ([Pprint CYAN ''Test Summary'',
                Pprint CYAN (''  tests that pass '' @ str_int (N - k) @ ''/'' @ str_int N)]
               @ pass_lines ?s lst @
               [Pprint CYAN (''  tests that fail '' @ str_int k @ ''/'' @ str_int N)]
               @ fail_lines lst, k)"
    using assms(1,3,4) by (simp add: print_test_summary_def Let_def)
  have 2: "print_test_summary (ctx\<lparr>utest_results := Some lst'\<rparr>) =
              ([Pprint CYAN ''Test Summary'',
                Pprint CYAN (''  tests that pass '' @ str_int (N - k) @ ''/'' @ str_int N)]
               @ pass_lines ?s lst' @
               [Pprint CYAN (''  tests that fail '' @ str_int k @ ''/'' @ str_int N)]
               @ fail_lines lst', k)"
    using assms(3,4) len k' by (simp add: print_test_summary_def Let_def)
  have 3: "int (length (pass_lines ?s lst)) = (if ?s then 3 else 1) * (N - k)"
    using pass by (simp add: length_pass_lines)
  have 4: "int (length (fail_lines lst)) = 3 * k"
    using assms(4) by (simp add: length_fail_lines)
  have 5: "mset (pass_lines ?s lst') = mset (pass_lines ?s lst)"
    using assms(2) by (rule mset_pass_lines)
  have 6: "mset (fail_lines lst') = mset (fail_lines lst)"
    using assms(2) by (rule mset_fail_lines)
  from 1 2 3 4 5 6 kN show ?thesis by blast
qed

theorem print_test_summary_counts_witness:
  "utest_results (example_ctx\<lparr>utest_results := Some example_results\<rparr>) = Some example_results \<and>
   mset (rev example_results) = mset example_results \<and>
   (3::int) = int (length example_results) \<and>
   (1::int) = int (length (filter (\<lambda>x. fst (snd x) \<noteq> 0) example_results)) \<and>
   snd (print_test_summary (example_ctx\<lparr>utest_results := Some example_results\<rparr>)) = 1 \<and>
   snd (print_test_summary (example_ctx\<lparr>utest_results := Some (rev example_results)\<rparr>)) = 1 \<and>
   fst (print_test_summary (example_ctx\<lparr>utest_results := Some example_results\<rparr>)) ! 1 =
     Pprint CYAN ''  tests that pass 2/3'' \<and>
   fst (print_test_summary (example_ctx\<lparr>utest_results := Some (rev example_results)\<rparr>)) ! 1 =
     Pprint CYAN ''  tests that pass 2/3''"
proof -
  have h1: "utest_results (example_ctx\<lparr>utest_results := Some example_results\<rparr>) = Some example_results"
    by simp
  have h2: "mset (rev example_results) = mset example_results" by simp
  have h3: "(3::int) = int (length example_results)" by (simp add: example_results_def)
  have h4: "(1::int) = int (length (filter (\<lambda>x. fst (snd x) \<noteq> 0) example_results))"
    by (simp add: example_results_def)
  have s: "str_int 2 = ''2''" "str_int 3 = ''3''"
    by (simp_all add: str_int_def str_nat.simps digit_char_def)
  show ?thesis
    using print_test_summary_counts [OF h1 h2 h3 h4] h3 h4 s by auto
qed

subsection \<open>The coverage pipeline\<close>

lemma example_cmd_descs_eq:
  "coverage_cmd_descs (example_ext\<lparr>proc := pr\<rparr>) example_cov_ctx =
     Inr (example_cmd_descs, ''/build/_test_coverage/report'')"
  by (simp add: coverage_cmd_descs_def example_cov_ctx_def example_ctx_def example_ext_def
      example_results_def example_options_def example_cmd_descs_def Let_def)

lemma length_coverage_cmd_descs:
  "coverage_cmd_descs ext ctx = Inr (cmd_descs, out_path) \<Longrightarrow> length cmd_descs = 5"
  by (auto simp: coverage_cmd_descs_def Let_def split: prod.splits list.splits)

text \<open>One turn of the loop, from a state in which the first \<open>i\<close> commands have been started.\<close>

lemma coverage_loop_step:
  assumes "i < length cmd_descs"
    and "cov_launched st = map fst (take i cmd_descs)"
  shows "coverage_loop ext cmd_descs i st =
           (let st2 = \<lparr>cov_console = cov_console st @ [Info (step_msg ext cmd_descs i)],
                       cov_logfile = cov_logfile st @ step_log ext cmd_descs i,
                       cov_launched = map fst (take (Suc i) cmd_descs)\<rparr>
            in if fst (step_result ext cmd_descs i) \<noteq> 0 then (False, st2)
               else coverage_loop ext cmd_descs (Suc i) st2)"
  using assms
  by (cases st, subst coverage_loop.simps)
     (simp add: Let_def step_msg_def step_log_def step_result_def banner_def banner_rule_def
        take_Suc_conv_app_nth)

lemma coverage_loop_fail:
  assumes "j < length cmd_descs"
    and "fst (step_result ext cmd_descs j) \<noteq> 0"
    and "\<forall>i. i0 \<le> i \<and> i < j \<longrightarrow> fst (step_result ext cmd_descs i) = 0"
    and "i0 \<le> j"
    and "cov_launched st = map fst (take i0 cmd_descs)"
  shows "coverage_loop ext cmd_descs i0 st =
           (False, \<lparr>cov_console = cov_console st @ map (\<lambda>i. Info (step_msg ext cmd_descs i)) [i0..<Suc j],
                    cov_logfile = cov_logfile st @ concat (map (step_log ext cmd_descs) [i0..<Suc j]),
                    cov_launched = map fst (take (Suc j) cmd_descs)\<rparr>)"
  using assms(3,4,5)
proof (induction "j - i0" arbitrary: i0 st)
  case 0
  then have "i0 = j" by simp
  then show ?case
    using assms(1,2) "0.prems"(3) by (simp add: coverage_loop_step)
next
  case (Suc d)
  then have lt: "i0 < j" by simp
  let ?st2 = "\<lparr>cov_console = cov_console st @ [Info (step_msg ext cmd_descs i0)],
                cov_logfile = cov_logfile st @ step_log ext cmd_descs i0,
                cov_launched = map fst (take (Suc i0) cmd_descs)\<rparr>"
  have ok: "fst (step_result ext cmd_descs i0) = 0" using Suc.prems(1) lt by simp
  have step: "coverage_loop ext cmd_descs i0 st = coverage_loop ext cmd_descs (Suc i0) ?st2"
    using assms(1) lt Suc.prems(3) ok by (simp add: coverage_loop_step)
  have d: "d = j - Suc i0" using Suc.hyps(2) by simp
  have ih: "coverage_loop ext cmd_descs (Suc i0) ?st2 =
      (False, \<lparr>cov_console = cov_console ?st2 @ map (\<lambda>i. Info (step_msg ext cmd_descs i)) [Suc i0..<Suc j],
               cov_logfile = cov_logfile ?st2 @ concat (map (step_log ext cmd_descs) [Suc i0..<Suc j]),
               cov_launched = map fst (take (Suc j) cmd_descs)\<rparr>)"
    using Suc.hyps(1) [OF d] Suc.prems(1) lt by simp
  have upt: "[i0..<Suc j] = i0 # [Suc i0..<Suc j]" using lt by (simp add: upt_conv_Cons)
  show ?case unfolding step ih upt by simp
qed

lemma coverage_loop_success:
  assumes "\<forall>i. i0 \<le> i \<and> i < length cmd_descs \<longrightarrow> fst (step_result ext cmd_descs i) = 0"
    and "i0 \<le> length cmd_descs"
    and "cov_launched st = map fst (take i0 cmd_descs)"
  shows "coverage_loop ext cmd_descs i0 st =
           (True, \<lparr>cov_console = cov_console st @ map (\<lambda>i. Info (step_msg ext cmd_descs i)) [i0..<length cmd_descs],
                   cov_logfile = cov_logfile st @ concat (map (step_log ext cmd_descs) [i0..<length cmd_descs]),
                   cov_launched = map fst cmd_descs\<rparr>)"
  using assms
proof (induction "length cmd_descs - i0" arbitrary: i0 st)
  case 0
  then have "i0 = length cmd_descs" by simp
  then show ?case
    using "0.prems"(3) by (cases st) (simp add: coverage_loop.simps)
next
  case (Suc d)
  then have lt: "i0 < length cmd_descs" by simp
  let ?st2 = "\<lparr>cov_console = cov_console st @ [Info (step_msg ext cmd_descs i0)],
                cov_logfile = cov_logfile st @ step_log ext cmd_descs i0,
                cov_launched = map fst (take (Suc i0) cmd_descs)\<rparr>"
  have ok: "fst (step_result ext cmd_descs i0) = 0" using Suc.prems(1) lt by simp
  have step: "coverage_loop ext cmd_descs i0 st = coverage_loop ext cmd_descs (Suc i0) ?st2"
    using lt Suc.prems(3) ok by (simp add: coverage_loop_step)
  have d: "d = length cmd_descs - Suc i0" using Suc.hyps(2) by simp
  have ih: "coverage_loop ext cmd_descs (Suc i0) ?st2 =
      (True, \<lparr>cov_console = cov_console ?st2 @ map (\<lambda>i. Info (step_msg ext cmd_descs i)) [Suc i0..<length cmd_descs],
              cov_logfile = cov_logfile ?st2 @ concat (map (step_log ext cmd_descs) [Suc i0..<length cmd_descs]),
              cov_launched = map fst cmd_descs\<rparr>)"
    using Suc.hyps(1) [OF d] Suc.prems(1) lt by simp
  have upt: "[i0..<length cmd_descs] = i0 # [Suc i0..<length cmd_descs]"
    using lt by (simp add: upt_conv_Cons)
  show ?case unfolding step ih upt by simp
qed

lemma example_fail_steps:
  "fst (step_result example_fail_ext example_cmd_descs 0) = 0"
  "fst (step_result example_fail_ext example_cmd_descs 1) = 0"
  "fst (step_result example_fail_ext example_cmd_descs 2) \<noteq> 0"
  by (simp_all add: step_result_def example_fail_ext_def example_cmd_descs_def)

text \<open>
  Claim C7. When the command \<open>j\<close> of the five (counted from 0) is the first to exit with a
  nonzero code, the generator returns \<^verbatim>\<open>False\<close>, the commands started are exactly the
  first \<open>j + 1\<close>, and the log file holds, after its header, the banner and the output of
  exactly these \<open>j + 1\<close> steps: no later command is started and no later banner is written.
  With \<open>j = 2\<close>: when combining the trace files fails, filtering and \<^verbatim>\<open>genhtml\<close> never run.
\<close>

theorem coverage_pipeline_fail_fast:
  assumes "coverage_cmd_descs ext ctx = Inr (cmd_descs, out_path)"
    and "j < 5"
    and "fst (step_result ext cmd_descs j) \<noteq> 0"
    and "\<forall>i<j. fst (step_result ext cmd_descs i) = 0"
  shows "length cmd_descs = 5 \<and>
         generate_coverage_report ext ctx =
           Inr (False,
                \<lparr>cov_console =
                   [Pprint CYAN ''Generating Test Coverage Report'',
                    Pprint GREEN (''  log file: '' @ path_join ext (abspath (bldnode ctx)) ''coverage.log'')]
                   @ map (\<lambda>i. Info (step_msg ext cmd_descs i)) [0..<Suc j],
                 cov_logfile =
                   [Printed (replicate 79 CHR ''=''), Printed (''all cmds: '' @ str_cmd_descs ext cmd_descs),
                    Printed (replicate 79 CHR ''='')]
                   @ concat (map (step_log ext cmd_descs) [0..<Suc j]),
                 cov_launched = map fst (take (Suc j) cmd_descs)\<rparr>)"
proof -
  have len: "length cmd_descs = 5" using assms(1) by (rule length_coverage_cmd_descs)
  have j: "j < length cmd_descs" using assms(2) len by simp
  have before: "\<forall>i. 0 \<le> i \<and> i < j \<longrightarrow> fst (step_result ext cmd_descs i) = 0"
    using assms(4) by simp
  let ?st0 = "\<lparr>cov_console =
                   [Pprint CYAN ''Generating Test Coverage Report'',
                    Pprint GREEN (''  log file: '' @ path_join ext (abspath (bldnode ctx)) ''coverage.log'')],
                cov_logfile =
                   [Printed (replicate 79 CHR ''=''), Printed (''all cmds: '' @ str_cmd_descs ext cmd_descs),
                    Printed (replicate 79 CHR ''='')],
                cov_launched = []\<rparr>"
  have "cov_launched ?st0 = map fst (take 0 cmd_descs)" by simp
  from coverage_loop_fail [OF j assms(3) before _ this]
  have "coverage_loop ext cmd_descs 0 ?st0 =
          (False, \<lparr>cov_console = cov_console ?st0 @ map (\<lambda>i. Info (step_msg ext cmd_descs i)) [0..<Suc j],
                   cov_logfile = cov_logfile ?st0 @ concat (map (step_log ext cmd_descs) [0..<Suc j]),
                   cov_launched = map fst (take (Suc j) cmd_descs)\<rparr>)"
    by simp
  then show ?thesis
    using assms(1) len by (simp add: generate_coverage_report_def banner_rule_def Let_def)
qed

theorem coverage_pipeline_fail_fast_witness:
  "coverage_cmd_descs example_fail_ext example_cov_ctx =
     Inr (example_cmd_descs, ''/build/_test_coverage/report'') \<and>
   (2::nat) < 5 \<and>
   fst (step_result example_fail_ext example_cmd_descs 2) \<noteq> 0 \<and>
   fst (step_result example_fail_ext example_cmd_descs 0) = 0 \<and>
   fst (step_result example_fail_ext example_cmd_descs 1) = 0 \<and>
   (\<exists>st. generate_coverage_report example_fail_ext example_cov_ctx = Inr (False, st) \<and>
         cov_launched st = map fst (take 3 example_cmd_descs) \<and>
         cov_logfile st =
           [Printed (replicate 79 CHR ''=''),
            Printed (''all cmds: '' @ str_cmd_descs example_fail_ext example_cmd_descs),
            Printed (replicate 79 CHR ''='')]
           @ step_log example_fail_ext example_cmd_descs 0
           @ step_log example_fail_ext example_cmd_descs 1
           @ step_log example_fail_ext example_cmd_descs 2)"
proof -
  have h1: "coverage_cmd_descs example_fail_ext example_cov_ctx =
              Inr (example_cmd_descs, ''/build/_test_coverage/report'')"
    unfolding example_fail_ext_def by (rule example_cmd_descs_eq)
  have h2: "(2::nat) < 5" by simp
  have h4: "\<forall>i<2. fst (step_result example_fail_ext example_cmd_descs i) = 0"
    using example_fail_steps(1,2) by (auto simp: less_Suc_eq numeral_2_eq_2)
  have upt: "[0..<Suc 2] = [0, 1, 2]" by (simp add: upt_rec)
  show ?thesis
    using coverage_pipeline_fail_fast [OF h1 h2 example_fail_steps(3) h4] h1 example_fail_steps upt
    by (simp add: eval_nat_numeral)
qed

subsection \<open>The post-build hook and the coverage report\<close>

lemma generate_coverage_report_success:
  assumes "coverage_cmd_descs ext ctx = Inr (cmd_descs, out_path)"
    and "\<forall>i<5. fst (step_result ext cmd_descs i) = 0"
  shows "\<exists>st. generate_coverage_report ext ctx = Inr (True, st) \<and>
              cov_launched st = map fst cmd_descs"
proof -
  have len: "length cmd_descs = 5" using assms(1) by (rule length_coverage_cmd_descs)
  have all: "\<forall>i. 0 \<le> i \<and> i < length cmd_descs \<longrightarrow> fst (step_result ext cmd_descs i) = 0"
    using assms(2) len by simp
  let ?st0 = "\<lparr>cov_console =
                   [Pprint CYAN ''Generating Test Coverage Report'',
                    Pprint GREEN (''  log file: '' @ path_join ext (abspath (bldnode ctx)) ''coverage.log'')],
                cov_logfile =
                   [Printed banner_rule, Printed (''all cmds: '' @ str_cmd_descs ext cmd_descs),
                    Printed banner_rule],
                cov_launched = []\<rparr>"
  have "cov_launched ?st0 = map fst (take 0 cmd_descs)" by simp
  from coverage_loop_success [OF all _ this]
  have "fst (coverage_loop ext cmd_descs 0 ?st0) \<and>
        cov_launched (snd (coverage_loop ext cmd_descs 0 ?st0)) = map fst cmd_descs"
    by simp
  then show ?thesis
    using assms(1) by (simp add: generate_coverage_report_def Let_def)
qed

lemma example_success_steps:
  "\<forall>i<5. fst (step_result example_ext example_cmd_descs i) = 0"
  by (simp add: step_result_def example_ext_def)

lemma example_cov_ctx_summary: "snd (print_test_summary example_cov_ctx) = 0"
  by (simp add: print_test_summary_def example_cov_ctx_def example_results_def Let_def)

text \<open>
  Claim C2. When coverage is enabled and the generator returns (with either value),
  the hook sets \<^verbatim>\<open>is_coverage_success\<close> to \<^verbatim>\<open>False\<close> and appends the line
  \<^verbatim>\<open>Failed to generate coverage report.\<close> to \<^verbatim>\<open>error_msg\<close>: also when all five
  commands have succeeded.
\<close>

theorem coverage_always_reported_failed:
  assumes "with_coverage ctx"
    and "generate_coverage_report ext ctx = Inr cov"
  shows "\<exists>r. post_build_fun ext ctx = Inr r \<and> pb_coverage r = Some cov \<and>
             pb_error_msg r =
               (if snd (print_test_summary ctx) > 0 then ''Some tests have failed.'' else [])
               @ CHR 0x0A # ''Failed to generate coverage report.''"
  using assms by (simp add: post_build_fun_def Let_def)

theorem coverage_always_reported_failed_witness:
  "with_coverage example_cov_ctx \<and>
   (\<exists>st r. generate_coverage_report example_ext example_cov_ctx = Inr (True, st) \<and>
           cov_launched st = map fst example_cmd_descs \<and>
           post_build_fun example_ext example_cov_ctx = Inr r \<and>
           pb_coverage r = Some (True, st) \<and>
           pb_error_msg r = CHR 0x0A # ''Failed to generate coverage report.'')"
proof -
  have h1: "with_coverage example_cov_ctx" by (simp add: example_cov_ctx_def)
  have "coverage_cmd_descs example_ext example_cov_ctx =
          Inr (example_cmd_descs, ''/build/_test_coverage/report'')"
    using example_cmd_descs_eq [of "proc example_ext"] by simp
  from generate_coverage_report_success [OF this example_success_steps]
  obtain st where st: "generate_coverage_report example_ext example_cov_ctx = Inr (True, st)"
    "cov_launched st = map fst example_cmd_descs" by blast
  show ?thesis
    using coverage_always_reported_failed [OF h1 st(1)] h1 st example_cov_ctx_summary by auto
qed

text \<open>The hook calls \<^verbatim>\<open>ctx.fatal\<close> exactly when a test has failed.\<close>

lemma post_build_fatal_iff:
  assumes "post_build_fun ext ctx = Inr r"
  shows "(pb_fatal r \<noteq> None) = (snd (print_test_summary ctx) > 0)"
  using assms
  by (auto simp: post_build_fun_def Let_def fatal_if_failed_def split: if_splits sum.splits)

text \<open>
  Claim C1. The build is to fail exactly when a test has failed, or the coverage report
  was requested and its generation failed. The hook fails the build only in the first
  case: at this input one test has run and passed, coverage is enabled and the third
  command of the pipeline exits with 1; the generator returns \<^verbatim>\<open>False\<close>, the hook appends
  the failure to \<^verbatim>\<open>error_msg\<close>, and \<^verbatim>\<open>ctx.fatal\<close> is not called.
\<close>

theorem post_build_coverage_failure_not_fatal:
  "with_coverage example_cov_ctx \<and>
   snd (print_test_summary example_cov_ctx) = 0 \<and>
   (\<exists>st r. generate_coverage_report example_fail_ext example_cov_ctx = Inr (False, st) \<and>
           post_build_fun example_fail_ext example_cov_ctx = Inr r \<and>
           pb_error_msg r = CHR 0x0A # ''Failed to generate coverage report.'' \<and>
           pb_fatal r = None)"
proof -
  have h1: "with_coverage example_cov_ctx" by (simp add: example_cov_ctx_def)
  have cd: "coverage_cmd_descs example_fail_ext example_cov_ctx =
              Inr (example_cmd_descs, ''/build/_test_coverage/report'')"
    unfolding example_fail_ext_def by (rule example_cmd_descs_eq)
  have before: "\<forall>i. 0 \<le> i \<and> i < 2 \<longrightarrow> fst (step_result example_fail_ext example_cmd_descs i) = 0"
    using example_fail_steps(1,2) by (auto simp: less_Suc_eq numeral_2_eq_2)
  have len: "length example_cmd_descs = 5" by (simp add: example_cmd_descs_def)
  have loop: "\<not> fst (coverage_loop example_fail_ext example_cmd_descs 0 st0)"
    if "cov_launched st0 = []" for st0
    using coverage_loop_fail [of 2 example_cmd_descs example_fail_ext 0 st0]
      example_fail_steps(3) before len that by simp
  obtain st where st: "generate_coverage_report example_fail_ext example_cov_ctx = Inr (False, st)"
    using cd loop by (simp add: generate_coverage_report_def Let_def)
  obtain r where r: "post_build_fun example_fail_ext example_cov_ctx = Inr r"
    "pb_error_msg r = CHR 0x0A # ''Failed to generate coverage report.''"
    "pb_fatal r = None"
    using h1 st example_cov_ctx_summary
    by (simp add: post_build_fun_def Let_def fatal_if_failed_def)
  show ?thesis using h1 st r example_cov_ctx_summary by blast
qed

subsection \<open>The environment of the test process\<close>

lemma set_first_occurrences: "set (first_occurrences xs) = set xs"
  by (induction xs) auto

lemma distinct_first_occurrences: "distinct (first_occurrences xs)"
  by (induction xs) (auto simp: set_first_occurrences)

text \<open>Adding the directories \<open>ds\<close> one by one to \<open>lst\<close>, as the loop body does.\<close>

lemma fold_add_new:
  "fold (\<lambda>s l. if s \<notin> set l then l @ [s] else l) ds lst =
     lst @ filter (\<lambda>s. s \<notin> set lst) (first_occurrences ds)"
proof (induction ds arbitrary: lst)
  case Nil
  show ?case by simp
next
  case (Cons x ds)
  show ?case
  proof (cases "x \<in> set lst")
    case True
    then have "filter (\<lambda>s. s \<notin> set lst) (filter (\<lambda>y. y \<noteq> x) (first_occurrences ds)) =
               filter (\<lambda>s. s \<notin> set lst) (first_occurrences ds)"
      by (auto intro: filter_cong)
    with True Cons show ?thesis by simp
  next
    case False
    have "filter (\<lambda>s. s \<notin> set (lst @ [x])) (first_occurrences ds) =
          filter (\<lambda>s. s \<notin> set lst) (filter (\<lambda>y. y \<noteq> x) (first_occurrences ds))"
      by (auto intro: filter_cong)
    with False Cons show ?thesis by simp
  qed
qed

lemma scan_group_fold:
  assumes "list_all (\<lambda>tg. case link_task tg of None \<Rightarrow> True | Some lt \<Rightarrow> outputs lt \<noteq> []) g"
  shows "scan_group g lst =
           Inr (fold (\<lambda>s l. if s \<notin> set l then l @ [s] else l) (concat (map tg_dirs g)) lst)"
  using assms
proof (induction g arbitrary: lst)
  case Nil
  show ?case by simp
next
  case (Cons tg g)
  then show ?case
    by (cases "link_task tg") (auto simp: tg_dirs_def Let_def split: list.splits)
qed

lemma scan_groups_fold:
  assumes "has_link_outputs gs"
  shows "scan_groups gs lst =
           Inr (fold (\<lambda>s l. if s \<notin> set l then l @ [s] else l) (link_output_dirs gs) lst)"
  using assms
proof (induction gs arbitrary: lst)
  case Nil
  show ?case by (simp add: link_output_dirs_def)
next
  case (Cons g gs)
  then show ?case
    by (simp add: has_link_outputs_def link_output_dirs_def scan_group_fold)
qed

lemma scan_groups_first_occurrences:
  "has_link_outputs gs \<Longrightarrow> scan_groups gs [] = Inr (first_occurrences (link_output_dirs gs))"
  by (simp add: scan_groups_fold fold_add_new)

lemma join_str_snoc: "xs \<noteq> [] \<Longrightarrow> join_str sep (xs @ [x]) = join_str sep xs @ sep @ x"
  by (induction sep xs rule: join_str.induct) auto

text \<open>
  Claim C6. When no environment has been stored yet and every link task has an output,
  \<^verbatim>\<open>utest.run\<close> computes the environment \<open>fu\<close> from \<^verbatim>\<open>os.environ\<close> by setting \<^verbatim>\<open>PATH\<close>
  on Windows, \<^verbatim>\<open>DYLD_LIBRARY_PATH\<close> and \<^verbatim>\<open>LD_LIBRARY_PATH\<close> on macOS and
  \<^verbatim>\<open>LD_LIBRARY_PATH\<close> elsewhere, and leaves every other variable as it is. The new value of
  a variable is the list \<open>lst\<close> followed by the old value (empty when the variable is not
  set), joined by \<^verbatim>\<open>os.pathsep\<close>; \<open>lst\<close> holds the link-output directories of all
  generators of all groups, each once, in the order of their first occurrence. The
  environment is stored in the build context; a second call returns the stored
  environment, and any computation over the same groups gives the same environment.
\<close>

theorem test_paths_prepends_link_dirs:
  assumes "all_test_paths bld = None"
    and "has_link_outputs (groups bld)"
    and "lst = first_occurrences (link_output_dirs (groups bld))"
    and "prepended =
           (\<lambda>var. join_str (pathsep ext)
                    (lst @ [case environ ext var of None \<Rightarrow> [] | Some v \<Rightarrow> v]))"
  shows "distinct lst \<and> set lst = set (link_output_dirs (groups bld)) \<and>
         (\<exists>fu. test_paths ext bld = Inr (fu, bld\<lparr>all_test_paths := Some fu\<rparr>) \<and>
               fu = (if is_win32 ext then (environ ext)(''PATH'' \<mapsto> prepended ''PATH'')
                     else if unversioned_sys_platform ext = ''darwin''
                     then (environ ext)(''DYLD_LIBRARY_PATH'' \<mapsto> prepended ''DYLD_LIBRARY_PATH'',
                                        ''LD_LIBRARY_PATH'' \<mapsto> prepended ''LD_LIBRARY_PATH'')
                     else (environ ext)(''LD_LIBRARY_PATH'' \<mapsto> prepended ''LD_LIBRARY_PATH'')) \<and>
               test_paths ext (bld\<lparr>all_test_paths := Some fu\<rparr>) =
                 Inr (fu, bld\<lparr>all_test_paths := Some fu\<rparr>) \<and>
               (\<forall>bld2. groups bld2 = groups bld \<and> all_test_paths bld2 = None \<longrightarrow>
                        test_paths ext bld2 = Inr (fu, bld2\<lparr>all_test_paths := Some fu\<rparr>))) \<and>
         (lst \<noteq> [] \<longrightarrow>
            (\<forall>var. prepended var =
                     join_str (pathsep ext) lst @ pathsep ext
                     @ (case environ ext var of None \<Rightarrow> [] | Some v \<Rightarrow> v)))"
proof -
  have scan: "scan_groups (groups bld) [] = Inr lst"
    using assms(2,3) by (simp add: scan_groups_first_occurrences)
  have d: "distinct lst" "set lst = set (link_output_dirs (groups bld))"
    using assms(3) by (simp_all add: distinct_first_occurrences set_first_occurrences)
  let ?fu = "if is_win32 ext then (environ ext)(''PATH'' \<mapsto> prepended ''PATH'')
             else if unversioned_sys_platform ext = ''darwin''
             then (environ ext)(''DYLD_LIBRARY_PATH'' \<mapsto> prepended ''DYLD_LIBRARY_PATH'',
                                ''LD_LIBRARY_PATH'' \<mapsto> prepended ''LD_LIBRARY_PATH'')
             else (environ ext)(''LD_LIBRARY_PATH'' \<mapsto> prepended ''LD_LIBRARY_PATH'')"
  have first: "test_paths ext b = Inr (?fu, b\<lparr>all_test_paths := Some ?fu\<rparr>)"
    if "groups b = groups bld" "all_test_paths b = None" for b
    using that scan assms(4) by (simp add: test_paths_def add_path_def Let_def)
  have again: "test_paths ext (bld\<lparr>all_test_paths := Some ?fu\<rparr>) =
                 Inr (?fu, bld\<lparr>all_test_paths := Some ?fu\<rparr>)"
    by (simp add: test_paths_def)
  have pre: "lst \<noteq> [] \<longrightarrow>
            (\<forall>var. prepended var =
                     join_str (pathsep ext) lst @ pathsep ext
                     @ (case environ ext var of None \<Rightarrow> [] | Some v \<Rightarrow> v))"
    using assms(4) by (simp add: join_str_snoc)
  from d first [OF refl assms(1)] again first pre show ?thesis by blast
qed

theorem test_paths_prepends_link_dirs_witness:
  "all_test_paths example_bld = None \<and> has_link_outputs (groups example_bld) \<and>
   first_occurrences (link_output_dirs (groups example_bld)) = [''/build/g'', ''/build/h''] \<and>
   (\<exists>fu b. test_paths example_ext example_bld = Inr (fu, b) \<and>
           fu ''LD_LIBRARY_PATH'' = Some ''/build/g:/build/h:/usr/lib'' \<and>
           fu ''HOME'' = Some ''/root'' \<and> fu ''PATH'' = None \<and>
           test_paths example_ext b = Inr (fu, b))"
proof -
  have h1: "all_test_paths example_bld = None"
    by (simp add: example_bld_def example_ctx_def)
  have h2: "has_link_outputs (groups example_bld)"
    by (simp add: example_bld_def has_link_outputs_def example_groups_def)
  have h3: "first_occurrences (link_output_dirs (groups example_bld)) = [''/build/g'', ''/build/h'']"
    by (simp add: example_bld_def link_output_dirs_def tg_dirs_def example_groups_def
        example_test_def)
  have e: "is_win32 example_ext = False" "unversioned_sys_platform example_ext = ''linux''"
    "pathsep example_ext = '':''"
    "environ example_ext = [''LD_LIBRARY_PATH'' \<mapsto> ''/usr/lib'', ''HOME'' \<mapsto> ''/root'']"
    by (simp_all add: example_ext_def)
  show ?thesis
    using test_paths_prepends_link_dirs [OF h1 h2 refl refl, of example_ext] h1 h2 h3 e
    by auto
qed

subsection \<open>Concurrent workers storing their results\<close>

lemma sum_list_map_update:
  fixes f :: "'a \<Rightarrow> 'b::comm_monoid_add"
  shows "i < length xs \<Longrightarrow> sum_list (map f (xs[i := x])) + f (xs ! i) = sum_list (map f xs) + f x"
proof (induction xs arbitrary: i)
  case Nil
  then show ?case by simp
next
  case (Cons a xs)
  then show ?case by (cases i) (auto simp: add.assoc add.commute add.left_commute)
qed

lemma conc_inv_init:
  "conc_inv (mset (result_set bld0) + sum_list (map mset todos)) (conc_init bld0 todos)"
  by (simp add: conc_inv_def conc_init_def pending_def comp_def)

lemma conc_inv_step:
  assumes "conc_inv M s"
  shows "conc_inv M (worker_step w s)"
proof (cases "w < length (cs_workers s)")
  case False
  then show ?thesis using assms by (simp add: worker_step_def)
next
  case w: True
  let ?wk = "cs_workers s ! w"
  show ?thesis
  proof (cases "w_todo ?wk")
    case Nil
    then show ?thesis using assms w by (simp add: worker_step_def Let_def)
  next
    case (Cons tup rest)
    have others: "w_pc (cs_workers s ! j) = Idle"
      if "w_pc ?wk \<noteq> Idle" "j < length (cs_workers s)" "j \<noteq> w" for j
      using assms w that unfolding conc_inv_def by blast
    have locked: "cs_lock s" if "w_pc ?wk \<noteq> Idle"
      using assms w that unfolding conc_inv_def by blast
    have msum: "mset (result_set (cs_bld s)) + sum_list (map (\<lambda>wk. mset (pending wk)) (cs_workers s)) = M"
      using assms unfolding conc_inv_def by blast
    note upd = sum_list_map_update [OF w, of "\<lambda>wk. mset (pending wk)"]
    show ?thesis
    proof (cases "w_pc ?wk")
      case Idle
      show ?thesis
      proof (cases "cs_lock s")
        case True
        then show ?thesis using assms w Cons Idle by (simp add: worker_step_def Let_def)
      next
        case False
        then have idle: "\<forall>i < length (cs_workers s). w_pc (cs_workers s ! i) = Idle"
          using assms unfolding conc_inv_def by blast
        have st: "worker_step w s =
                    s\<lparr>cs_lock := True, cs_workers := (cs_workers s)[w := ?wk\<lparr>w_pc := Locked\<rparr>]\<rparr>"
          using w Cons Idle False by (simp add: worker_step_def Let_def)
        have p: "pending (?wk\<lparr>w_pc := Locked\<rparr>) = pending ?wk"
          using Idle by (simp add: pending_def)
        have s': "sum_list (map (\<lambda>wk. mset (pending wk)) ((cs_workers s)[w := ?wk\<lparr>w_pc := Locked\<rparr>])) =
                  sum_list (map (\<lambda>wk. mset (pending wk)) (cs_workers s))"
          using upd [of "?wk\<lparr>w_pc := Locked\<rparr>"] p by simp
        have h: "utest_results (cs_bld s) = None"
          if "i < length (cs_workers s)" "w_pc (cs_workers s ! i) = Handler" for i
          using idle that by simp
        show ?thesis
          unfolding st conc_inv_def
          using idle Cons msum s' w by (auto simp: nth_list_update)
      qed
    next
      case Locked
      then have ne: "w_pc ?wk \<noteq> Idle" by simp
      note o = others [OF ne] and l = locked [OF ne]
      show ?thesis
      proof (cases "utest_results (cs_bld s)")
        case None
        have st: "worker_step w s = s\<lparr>cs_workers := (cs_workers s)[w := ?wk\<lparr>w_pc := Handler\<rparr>]\<rparr>"
          using w Cons Locked None by (simp add: worker_step_def Let_def)
        have p: "pending (?wk\<lparr>w_pc := Handler\<rparr>) = pending ?wk"
          using Locked by (simp add: pending_def)
        have s': "sum_list (map (\<lambda>wk. mset (pending wk)) ((cs_workers s)[w := ?wk\<lparr>w_pc := Handler\<rparr>])) =
                  sum_list (map (\<lambda>wk. mset (pending wk)) (cs_workers s))"
          using upd [of "?wk\<lparr>w_pc := Handler\<rparr>"] p by simp
        show ?thesis
          unfolding st conc_inv_def
          using o l Cons msum s' w None by (auto simp: nth_list_update)
      next
        case (Some results)
        have st: "worker_step w s =
                    s\<lparr>cs_bld := (cs_bld s)\<lparr>utest_results := Some (results @ [tup])\<rparr>,
                      cs_workers := (cs_workers s)[w := ?wk\<lparr>w_pc := Appended\<rparr>]\<rparr>"
          using w Cons Locked Some by (simp add: worker_step_def Let_def)
        have p: "mset (pending ?wk) = mset (pending (?wk\<lparr>w_pc := Appended\<rparr>)) + {#tup#}"
          using Locked Cons by (simp add: pending_def)
        have s': "sum_list (map (\<lambda>wk. mset (pending wk)) (cs_workers s)) =
                  sum_list (map (\<lambda>wk. mset (pending wk)) ((cs_workers s)[w := ?wk\<lparr>w_pc := Appended\<rparr>])) + {#tup#}"
          using upd [of "?wk\<lparr>w_pc := Appended\<rparr>"] p by (simp add: add.assoc)
        have r: "mset (result_set ((cs_bld s)\<lparr>utest_results := Some (results @ [tup])\<rparr>)) =
                 mset (result_set (cs_bld s)) + {#tup#}"
          using Some by (simp add: result_set_def)
        have m: "mset (result_set ((cs_bld s)\<lparr>utest_results := Some (results @ [tup])\<rparr>)) +
                 sum_list (map (\<lambda>wk. mset (pending wk)) ((cs_workers s)[w := ?wk\<lparr>w_pc := Appended\<rparr>])) = M"
          using msum s' r by (simp add: add.assoc add.commute add.left_commute)
        show ?thesis
          unfolding st conc_inv_def
          using o l Cons m w by (auto simp: nth_list_update)
      qed
    next
      case Handler
      then have ne: "w_pc ?wk \<noteq> Idle" by simp
      note o = others [OF ne] and l = locked [OF ne]
      have none: "utest_results (cs_bld s) = None"
        using assms w Handler unfolding conc_inv_def by blast
      have st: "worker_step w s =
                  s\<lparr>cs_bld := (cs_bld s)\<lparr>utest_results := Some [tup]\<rparr>,
                    cs_workers := (cs_workers s)[w := ?wk\<lparr>w_pc := Appended\<rparr>]\<rparr>"
        using w Cons Handler by (simp add: worker_step_def Let_def)
      have p: "mset (pending ?wk) = mset (pending (?wk\<lparr>w_pc := Appended\<rparr>)) + {#tup#}"
        using Handler Cons by (simp add: pending_def)
      have s': "sum_list (map (\<lambda>wk. mset (pending wk)) (cs_workers s)) =
                sum_list (map (\<lambda>wk. mset (pending wk)) ((cs_workers s)[w := ?wk\<lparr>w_pc := Appended\<rparr>])) + {#tup#}"
        using upd [of "?wk\<lparr>w_pc := Appended\<rparr>"] p by (simp add: add.assoc)
      have r: "mset (result_set ((cs_bld s)\<lparr>utest_results := Some [tup]\<rparr>)) =
               mset (result_set (cs_bld s)) + {#tup#}"
        using none by (simp add: result_set_def)
      have m: "mset (result_set ((cs_bld s)\<lparr>utest_results := Some [tup]\<rparr>)) +
               sum_list (map (\<lambda>wk. mset (pending wk)) ((cs_workers s)[w := ?wk\<lparr>w_pc := Appended\<rparr>])) = M"
        using msum s' r by (simp add: add.assoc add.commute add.left_commute)
      show ?thesis
        unfolding st conc_inv_def
        using o l Cons m w by (auto simp: nth_list_update)
    next
      case Appended
      then have ne: "w_pc ?wk \<noteq> Idle" by simp
      note o = others [OF ne] and l = locked [OF ne]
      have st: "worker_step w s =
                  s\<lparr>cs_lock := False,
                    cs_workers := (cs_workers s)[w := \<lparr>w_pc = Idle, w_todo = rest\<rparr>]\<rparr>"
        using w Cons Appended by (simp add: worker_step_def Let_def)
      have p: "pending \<lparr>w_pc = Idle, w_todo = rest\<rparr> = pending ?wk"
        using Appended Cons by (simp add: pending_def)
      have s': "sum_list (map (\<lambda>wk. mset (pending wk)) ((cs_workers s)[w := \<lparr>w_pc = Idle, w_todo = rest\<rparr>])) =
                sum_list (map (\<lambda>wk. mset (pending wk)) (cs_workers s))"
        using upd [of "\<lparr>w_pc = Idle, w_todo = rest\<rparr>"] p by simp
      show ?thesis
        unfolding st conc_inv_def
        using o l Cons msum s' w by (auto simp: nth_list_update)
    qed
  qed
qed

lemma conc_inv_run:
  "conc_inv M s \<Longrightarrow> conc_inv M (run_schedule sched s)"
  unfolding run_schedule_def
  by (induction sched arbitrary: s) (auto intro: conc_inv_step)

lemma sum_list_pending_done:
  assumes "\<forall>wk \<in> set ws. w_todo wk = []"
  shows "sum_list (map (\<lambda>wk. mset (pending wk)) ws) = {#}"
  using assms by (induction ws) (auto simp: pending_def)

lemma sum_list_map_mset_size:
  "size (sum_list (map mset xss)) = sum_list (map length xss)"
  by (induction xss) auto

text \<open>
  A worker that holds the lock changes the build context as \<open>append_result\<close> does, in one
  step when the attribute exists and in two when it does not.
\<close>

lemma critical_section_append_result:
  assumes "w < length (cs_workers s)"
    and "w_pc (cs_workers s ! w) = Locked"
    and "w_todo (cs_workers s ! w) = tup # rest"
  shows "cs_bld (if utest_results (cs_bld s) = None then worker_step w (worker_step w s)
                 else worker_step w s) = append_result tup (cs_bld s)"
  using assms by (auto simp: worker_step_def append_result_def Let_def)

lemma example_schedule_run:
  "map w_todo (cs_workers (run_schedule example_schedule (conc_init example_ctx example_todos))) = [[], []]"
  "utest_results (cs_bld (run_schedule example_schedule (conc_init example_ctx example_todos))) =
     Some example_results"
  by (simp_all add: run_schedule_def example_schedule_def worker_step_def conc_init_def
      example_todos_def example_ctx_def example_results_def Let_def)

text \<open>
  Claim C8. Workers, any number of them, store their tuples under the lock, their steps
  interleaved in any order \<open>sched\<close>. When every worker has stored all its tuples, the
  result set holds the tuples it held at the start and every tuple of every worker, each
  as often as it was stored and none more: its size is the size at the start plus the
  number of calls.
\<close>

theorem concurrent_appends_complete:
  assumes "s = run_schedule sched (conc_init bld0 todos)"
    and "\<forall>wk \<in> set (cs_workers s). w_todo wk = []"
  shows "mset (result_set (cs_bld s)) = mset (result_set bld0) + sum_list (map mset todos) \<and>
         length (result_set (cs_bld s)) = length (result_set bld0) + sum_list (map length todos)"
proof -
  have "conc_inv (mset (result_set bld0) + sum_list (map mset todos)) s"
    unfolding assms(1) by (rule conc_inv_run) (rule conc_inv_init)
  then have "mset (result_set (cs_bld s)) + sum_list (map (\<lambda>wk. mset (pending wk)) (cs_workers s)) =
             mset (result_set bld0) + sum_list (map mset todos)"
    unfolding conc_inv_def by blast
  then have m: "mset (result_set (cs_bld s)) = mset (result_set bld0) + sum_list (map mset todos)"
    using sum_list_pending_done [OF assms(2)] by simp
  have "size (mset (result_set (cs_bld s))) = size (mset (result_set bld0) + sum_list (map mset todos))"
    using m by simp
  then have "length (result_set (cs_bld s)) = length (result_set bld0) + sum_list (map length todos)"
    by (simp add: sum_list_map_mset_size)
  with m show ?thesis by simp
qed

theorem concurrent_appends_complete_witness:
  "map w_todo (cs_workers (run_schedule example_schedule (conc_init example_ctx example_todos))) =
     [[], []] \<and>
   length (result_set (cs_bld (run_schedule example_schedule (conc_init example_ctx example_todos)))) = 3"
proof -
  let ?s = "run_schedule example_schedule (conc_init example_ctx example_todos)"
  have "set (map w_todo (cs_workers ?s)) = {[]}"
    using example_schedule_run(1) by simp
  then have h: "\<forall>wk \<in> set (cs_workers ?s). w_todo wk = []" by auto
  have r0: "result_set example_ctx = []" by (simp add: result_set_def example_ctx_def)
  have n: "sum_list (map length example_todos) = 3"
    by (simp add: example_todos_def example_results_def)
  show ?thesis
    using concurrent_appends_complete [OF refl h] example_schedule_run(1) r0 n by simp
qed

end
